theory Spec2Isabelle
  imports Main "HOL-Library.Sublist"
begin

text \<open>
  A model of the owned-token indexer of the Betta backend, after the multi-RPC server in
  \<open>src/server.js\<close>: \<open>rpc\<close> with its endpoint rotation, \<open>getLatestBlockNumber\<close>,
  \<open>getTransferLogs\<close>, \<open>tokenIdFromLog\<close>, \<open>updateOwnedTokensForWallet\<close> and the route
  \<open>GET /owned\<close>. Functions keep the names of the source.
\<close>

section \<open>JavaScript primitives used by the indexer\<close>

text \<open>
  Strings are modelled as \<^typ>\<open>string\<close> (8-bit characters); the server only inspects ASCII
  letters, digits and white space. A JavaScript \<open>Error\<close> is a value with a constructor name
  and a message.
\<close>

datatype error = Error string | TypeError string | SyntaxError string

fun message :: "error \<Rightarrow> string" where
  "message (Error m) = m"
| "message (TypeError m) = m"
| "message (SyntaxError m) = m"

fun error_name :: "error \<Rightarrow> string" where
  "error_name (Error m) = ''Error''"
| "error_name (TypeError m) = ''TypeError''"
| "error_name (SyntaxError m) = ''SyntaxError''"

text \<open>\<open>String(e?.message || e)\<close>: the message, or the error's name when the message is empty.\<close>

definition error_text :: "error \<Rightarrow> string" where
  "error_text e = (if message e = [] then error_name e else message e)"

definition isWhiteSpace :: "char \<Rightarrow> bool" where
  "isWhiteSpace c = (c \<in> set [CHR 0x09, CHR 0x0A, CHR 0x0B, CHR 0x0C, CHR 0x0D, CHR 0x20, CHR 0xA0])"

definition trim :: "string \<Rightarrow> string" where
  "trim s = rev (dropWhile isWhiteSpace (rev (dropWhile isWhiteSpace s)))"

definition toLowerCase_char :: "char \<Rightarrow> char" where
  "toLowerCase_char c =
     (case map_of
       [(CHR ''A'', CHR ''a''), (CHR ''B'', CHR ''b''), (CHR ''C'', CHR ''c''), (CHR ''D'', CHR ''d''), (CHR ''E'', CHR ''e''),
        (CHR ''F'', CHR ''f''), (CHR ''G'', CHR ''g''), (CHR ''H'', CHR ''h''), (CHR ''I'', CHR ''i''), (CHR ''J'', CHR ''j''),
        (CHR ''K'', CHR ''k''), (CHR ''L'', CHR ''l''), (CHR ''M'', CHR ''m''), (CHR ''N'', CHR ''n''), (CHR ''O'', CHR ''o''),
        (CHR ''P'', CHR ''p''), (CHR ''Q'', CHR ''q''), (CHR ''R'', CHR ''r''), (CHR ''S'', CHR ''s''), (CHR ''T'', CHR ''t''),
        (CHR ''U'', CHR ''u''), (CHR ''V'', CHR ''v''), (CHR ''W'', CHR ''w''), (CHR ''X'', CHR ''x''), (CHR ''Y'', CHR ''y''),
        (CHR ''Z'', CHR ''z'')] c of
        Some d \<Rightarrow> d
      | None \<Rightarrow> c)"

definition toLowerCase :: "string \<Rightarrow> string" where
  "toLowerCase s = map toLowerCase_char s"

text \<open>\<open>s.includes(sub)\<close>: \<open>sub\<close> occurs in \<open>s\<close> as a contiguous substring.\<close>

fun str_includes :: "string \<Rightarrow> string \<Rightarrow> bool" where
  "str_includes [] sub = (sub = [])"
| "str_includes (c # cs) sub = (prefix sub (c # cs) \<or> str_includes cs sub)"

text \<open>\<open>s.padStart(64, "0")\<close>.\<close>

definition pad64No0x :: "string \<Rightarrow> string" where
  "pad64No0x hexNo0x = replicate (64 - length hexNo0x) CHR ''0'' @ hexNo0x"

text \<open>\<open>String(addr).toLowerCase().replace(/^0x/, "")\<close>, then the padded topic.\<close>

definition topicForAddress :: "string \<Rightarrow> string" where
  "topicForAddress addr =
     (let l = toLowerCase addr;
          a = (if take 2 l = ''0x'' then drop 2 l else l)
      in ''0x'' @ pad64No0x a)"

definition isHexDigit :: "char \<Rightarrow> bool" where
  "isHexDigit c = (c \<in> set ''0123456789abcdefABCDEF'')"

text \<open>\<open>/^0x[a-fA-F0-9]{40}$/.test(String(addr || "").trim())\<close>.\<close>

definition isHexAddress :: "string \<Rightarrow> bool" where
  "isHexAddress addr =
     (let s = trim addr
      in length s = 42 \<and> take 2 s = ''0x'' \<and> list_all isHexDigit (drop 2 s))"

subsection \<open>BigInt: printing and parsing\<close>

definition digit_char :: "int \<Rightarrow> char" where
  "digit_char d = ''0123456789abcdef'' ! nat d"

function toString_digits :: "int \<Rightarrow> int \<Rightarrow> string" where
  "toString_digits radix n =
     (if n < radix \<or> radix < 2 then [digit_char n]
      else toString_digits radix (n div radix) @ [digit_char (n mod radix)])"
  by pat_completeness auto
termination
  by (relation "measure (\<lambda>(radix, n). nat n)") (auto intro: int_div_less_self)

declare toString_digits.simps [simp del]

text \<open>\<open>bn.toString(radix)\<close> for a BigInt: a minus sign, then the digits of the magnitude.\<close>

definition toString_radix :: "int \<Rightarrow> int \<Rightarrow> string" where
  "toString_radix radix bn =
     (if bn < 0 then CHR ''-'' # toString_digits radix (- bn)
      else toString_digits radix bn)"

definition toHexBlock :: "int \<Rightarrow> string" where
  "toHexBlock bn = ''0x'' @ toString_radix 16 bn"

definition digit_value :: "char \<Rightarrow> int option" where
  "digit_value c =
     map_of
       [(CHR ''0'', 0), (CHR ''1'', 1), (CHR ''2'', 2), (CHR ''3'', 3),
        (CHR ''4'', 4), (CHR ''5'', 5), (CHR ''6'', 6), (CHR ''7'', 7),
        (CHR ''8'', 8), (CHR ''9'', 9), (CHR ''a'', 10), (CHR ''b'', 11),
        (CHR ''c'', 12), (CHR ''d'', 13), (CHR ''e'', 14), (CHR ''f'', 15),
        (CHR ''A'', 10), (CHR ''B'', 11), (CHR ''C'', 12), (CHR ''D'', 13),
        (CHR ''E'', 14), (CHR ''F'', 15)] c"

fun parse_digits :: "int \<Rightarrow> int \<Rightarrow> string \<Rightarrow> int option" where
  "parse_digits radix acc [] = Some acc"
| "parse_digits radix acc (c # cs) =
     (case digit_value c of
        None \<Rightarrow> None
      | Some d \<Rightarrow> if d < radix then parse_digits radix (acc * radix + d) cs else None)"

definition parse_number :: "int \<Rightarrow> string \<Rightarrow> int option" where
  "parse_number radix s = (if s = [] then None else parse_digits radix 0 s)"

text \<open>
  \<open>BigInt(str)\<close> on a string (ECMAScript \<open>StringToBigInt\<close>): white space is trimmed, the empty
  string is \<open>0n\<close>, a \<open>0x\<close>, \<open>0o\<close> or \<open>0b\<close> prefix selects the radix (no sign allowed), anything
  else is an optionally signed decimal literal. \<open>None\<close> stands for the \<open>SyntaxError\<close>.
\<close>

definition StringToBigInt :: "string \<Rightarrow> int option" where
  "StringToBigInt str =
     (let s = trim str in
      if s = [] then Some 0
      else if take 2 s = ''0x'' \<or> take 2 s = ''0X'' then parse_number 16 (drop 2 s)
      else if take 2 s = ''0o'' \<or> take 2 s = ''0O'' then parse_number 8 (drop 2 s)
      else if take 2 s = ''0b'' \<or> take 2 s = ''0B'' then parse_number 2 (drop 2 s)
      else if hd s = CHR ''+'' then parse_number 10 (tl s)
      else if hd s = CHR ''-'' then map_option uminus (parse_number 10 (tl s))
      else parse_number 10 s)"

subsection \<open>Log records and their token id\<close>

text \<open>
  A log record as returned by \<open>eth_getLogs\<close>. The server reads only \<open>topics\<close>; a record with
  no \<open>topics\<close> field behaves like one whose list is empty (\<open>log?.topics?.[3]\<close> is undefined
  in both cases).
\<close>

record log =
  topics :: "string list"

text \<open>
  \<open>tokenIdFromLog\<close>: \<open>topics[3]\<close> missing or empty gives \<open>null\<close>; a \<open>SyntaxError\<close> of \<open>BigInt\<close>
  is caught and gives \<open>null\<close> as well.
\<close>

definition tokenIdFromLog :: "log \<Rightarrow> int option" where
  "tokenIdFromLog lg =
     (if length (topics lg) \<le> 3 then None
      else let t3 = topics lg ! 3 in
        if t3 = [] then None else StringToBigInt t3)"

subsection \<open>The insertion-ordered Set of token ids\<close>

text \<open>
  The scan keeps a JavaScript \<open>Set\<close> of decimal strings produced by \<open>BigInt.toString()\<close>.
  A decimal string is identified with the integer it denotes; the \<open>Set\<close> is the list of its
  elements in insertion order.
\<close>

definition set_add :: "int \<Rightarrow> int list \<Rightarrow> int list" where
  "set_add x s = (if x \<in> set s then s else s @ [x])"

definition set_delete :: "int \<Rightarrow> int list \<Rightarrow> int list" where
  "set_delete x s = removeAll x s"

definition new_Set :: "int list \<Rightarrow> int list" where
  "new_Set xs = foldl (\<lambda>s x. set_add x s) [] xs"

subsection \<open>\<open>Number(a) - Number(b)\<close> as a sort key\<close>

function bit_length :: "int \<Rightarrow> nat" where
  "bit_length n = (if n \<le> 0 then 0 else Suc (bit_length (n div 2)))"
  by pat_completeness auto
termination
  by (relation "measure nat") auto

declare bit_length.simps [simp del]

text \<open>
  \<open>Number(s)\<close> for the decimal string of a non-negative integer: the nearest IEEE binary64
  value, ties to even, given as the exact integer it denotes. Every value from \<open>2^1024\<close> on
  stands for \<open>Infinity\<close>.
\<close>

definition Number_magnitude :: "int \<Rightarrow> int" where
  "Number_magnitude n =
     (if n < 2 ^ 53 then n
      else let e = bit_length n - 53;
               q = n div 2 ^ e;
               r = n mod 2 ^ e;
               h = 2 ^ (e - 1);
               v = (if r > h \<or> (r = h \<and> odd q) then (q + 1) * 2 ^ e else q * 2 ^ e)
           in min v (2 ^ 1024))"

definition Number :: "int \<Rightarrow> int" where
  "Number a = (if a < 0 then - Number_magnitude (- a) else Number_magnitude a)"

text \<open>
  \<open>Array.from(set).sort((a, b) => Number(a) - Number(b))\<close>. The comparator orders by the
  \<open>Number\<close> value and returns \<open>0\<close> (or \<open>NaN\<close>, read as \<open>0\<close>) on equal values;
  \<open>Array.prototype.sort\<close> is stable, so the result is the stable sort by that key.
\<close>

definition sortTokenIds :: "int list \<Rightarrow> int list" where
  "sortTokenIds s = sort_key Number s"

section \<open>Configuration, state and the remote provider\<close>

text \<open>
  The constants read from the process environment at start-up. \<open>RPC_URLS\<close> is the list of
  non-empty endpoint URLs, \<open>BETTA_CONTRACT\<close> is empty when no contract is configured.
\<close>

record config =
  RPC_URLS :: "string list"
  BETTA_CONTRACT :: string
  START_BLOCK :: int
  LOG_CHUNK :: int

text \<open>The value of \<open>j.result\<close>: \<open>null\<close>/\<open>undefined\<close>, a string, or an array of log records.\<close>

datatype rpc_result = RNull | RStr string | RLogs "log list"

record log_filter =
  address :: string
  fromBlock :: string
  toBlock :: string
  filter_topics :: "string option list"

datatype request = Eth_blockNumber | Eth_getLogs log_filter

text \<open>
  What one \<open>fetchFn\<close> call can produce: a rejected promise, or a response with its status,
  its text and what \<open>JSON.parse\<close> makes of a non-empty text (a \<open>SyntaxError\<close>, a falsy value,
  an object with a truthy \<open>error\<close> whose \<open>JSON.stringify\<close> is given, or an object with its
  \<open>result\<close>).
\<close>

datatype parsed = ParseError string | JFalsy | JError string | JResult rpc_result

datatype outcome = Rejected error | Response int string parsed

text \<open>
  The provider answers the \<open>n\<close>-th fetch of the process (counted from \<open>0\<close>) at a URL with
  a request: any behaviour of the remote side over time is such a function.
\<close>

type_synonym provider = "nat \<Rightarrow> string \<Rightarrow> request \<Rightarrow> outcome"

text \<open>
  An entry of \<open>ownedCache\<close>. \<open>lastScannedBlock\<close> is \<open>null\<close> or the decimal string written
  by \<open>String(latest)\<close> and read back by \<open>BigInt\<close>; \<open>tokenIds\<close> is the array of decimal
  strings. Both are given by the integers the strings denote.
\<close>

record checkpoint =
  lastScannedBlock :: "int option"
  tokenIds :: "int list"

text \<open>
  The mutable state of the process: the in-memory \<open>ownedCache\<close>, the content of
  \<open>wallet-owned.json\<close> as last written, the rotation cursor, and the fetches issued so far
  (URL, backoff in ms, request). Writing the file is taken to succeed.
\<close>

record state =
  ownedCache :: "string \<Rightarrow> checkpoint option"
  wallet_owned_json :: "string \<Rightarrow> checkpoint option"
  rpcCursor :: nat
  fetched :: "(string \<times> nat \<times> request) list"

definition writeJsonAtomic :: "state \<Rightarrow> state" where
  "writeJsonAtomic st = st\<lparr>wallet_owned_json := ownedCache st\<rparr>"

section \<open>JSON-RPC with multi-RPC fallback\<close>

definition pickRpcUrlsRoundRobin :: "config \<Rightarrow> state \<Rightarrow> string list \<times> state" where
  "pickRpcUrlsRoundRobin cfg st =
     (let n = length (RPC_URLS cfg) in
      if n = 0 then ([''https://mainnet.base.org''], st)
      else (map (\<lambda>i. RPC_URLS cfg ! ((rpcCursor st + i) mod n)) [0..<n],
            st\<lparr>rpcCursor := (rpcCursor st + 1) mod n\<rparr>))"

definition shouldFailover :: "string \<Rightarrow> bool" where
  "shouldFailover errMsg =
     (let s = toLowerCase errMsg in
      str_includes s ''no backend is currently healthy'' \<or>
      str_includes s ''http 503'' \<or>
      str_includes s ''http 502'' \<or>
      str_includes s ''http 504'' \<or>
      str_includes s ''rate'' \<or>
      str_includes s ''timeout'' \<or>
      str_includes s ''timed out'' \<or>
      str_includes s ''gateway'' \<or>
      str_includes s ''temporarily'' \<or>
      str_includes s ''busy'')"

definition fetchFn :: "provider \<Rightarrow> string \<Rightarrow> nat \<Rightarrow> request \<Rightarrow> state \<Rightarrow> outcome \<times> state" where
  "fetchFn p url backoff req st =
     (p (length (fetched st)) url req, st\<lparr>fetched := fetched st @ [(url, backoff, req)]\<rparr>)"

text \<open>
  The body of the \<open>try\<close> block of \<open>rpc\<close> after the fetch: \<open>j.result\<close>, or the error thrown.
\<close>

definition response_result :: "outcome \<Rightarrow> error + rpc_result" where
  "response_result out =
     (case out of
        Rejected e \<Rightarrow> Inl e
      | Response status text j \<Rightarrow>
          if \<not> (200 \<le> status \<and> status \<le> 299)
          then Inl (Error (''RPC HTTP '' @ toString_radix 10 status @ '': '' @ take 220 text))
          else if text = [] then Inl (Error ''RPC empty response'')
          else (case j of
                  ParseError m \<Rightarrow> Inl (SyntaxError m)
                | JFalsy \<Rightarrow> Inl (Error ''RPC empty response'')
                | JError js \<Rightarrow> Inl (Error (''RPC error: '' @ js))
                | JResult r \<Rightarrow> Inr r))"

definition attempt ::
  "provider \<Rightarrow> string \<Rightarrow> nat \<Rightarrow> request \<Rightarrow> state \<Rightarrow> (error + rpc_result) \<times> state" where
  "attempt p url backoff req st =
     (case fetchFn p url backoff req st of (out, st') \<Rightarrow> (response_result out, st'))"

text \<open>How the inner loop over \<open>[0, 350]\<close> is left.\<close>

datatype loop_exit = Return rpc_result | Throw error | Fallthrough "error option"

fun try_backoffs ::
  "provider \<Rightarrow> request \<Rightarrow> string \<Rightarrow> nat list \<Rightarrow> error option \<Rightarrow> state \<Rightarrow> loop_exit \<times> state" where
  "try_backoffs p req url [] lastErr st = (Fallthrough lastErr, st)"
| "try_backoffs p req url (backoff # rest) lastErr st =
     (case attempt p url backoff req st of
        (Inr r, st') \<Rightarrow> (Return r, st')
      | (Inl e, st') \<Rightarrow>
          if shouldFailover (error_text e) then try_backoffs p req url rest (Some e) st'
          else (Throw e, st'))"

fun try_urls ::
  "provider \<Rightarrow> request \<Rightarrow> string list \<Rightarrow> error option \<Rightarrow> state \<Rightarrow> (error + rpc_result) \<times> state" where
  "try_urls p req [] lastErr st =
     (Inl (case lastErr of Some e \<Rightarrow> e | None \<Rightarrow> Error ''RPC_FAILED''), st)"
| "try_urls p req (url # urls) lastErr st =
     (case try_backoffs p req url [0, 350] lastErr st of
        (Return r, st') \<Rightarrow> (Inr r, st')
      | (Throw e, st') \<Rightarrow> (Inl e, st')
      | (Fallthrough lastErr', st') \<Rightarrow> try_urls p req urls lastErr' st')"

definition rpc :: "provider \<Rightarrow> config \<Rightarrow> request \<Rightarrow> state \<Rightarrow> (error + rpc_result) \<times> state" where
  "rpc p cfg req st =
     (case pickRpcUrlsRoundRobin cfg st of (urls, st') \<Rightarrow> try_urls p req urls None st')"

text \<open>
  \<open>BigInt(hex)\<close> on a result: a string is parsed; \<open>null\<close> is a \<open>TypeError\<close>; an array is
  converted to a string first, the empty array to the empty string.
\<close>

definition BigInt :: "rpc_result \<Rightarrow> error + int" where
  "BigInt v =
     (case v of
        RNull \<Rightarrow> Inl (TypeError ''Cannot convert null to a BigInt'')
      | RStr s \<Rightarrow>
          (case StringToBigInt s of
             Some n \<Rightarrow> Inr n
           | None \<Rightarrow> Inl (SyntaxError (''Cannot convert '' @ s @ '' to a BigInt'')))
      | RLogs ls \<Rightarrow>
          if ls = [] then Inr 0
          else Inl (SyntaxError ''Cannot convert [object Object] to a BigInt''))"

definition getLatestBlockNumber :: "provider \<Rightarrow> config \<Rightarrow> state \<Rightarrow> (error + int) \<times> state" where
  "getLatestBlockNumber p cfg st =
     (case rpc p cfg Eth_blockNumber st of
        (Inl e, st') \<Rightarrow> (Inl e, st')
      | (Inr hex, st') \<Rightarrow> (BigInt hex, st'))"

definition TRANSFER_SIG :: string where
  "TRANSFER_SIG = ''0xddf252ad1be2c89b69c2b068fc378daa952ba7f163c4a11628f55a4df523b3ef''"

text \<open>\<open>if (addr) topic = topicForAddress(addr)\<close>: an absent or empty address leaves \<open>null\<close>.\<close>

definition topic_of :: "string option \<Rightarrow> string option" where
  "topic_of addr =
     (case addr of None \<Rightarrow> None | Some a \<Rightarrow> if a = [] then None else Some (topicForAddress a))"

definition getTransferLogs ::
  "provider \<Rightarrow> config \<Rightarrow> int \<Rightarrow> int \<Rightarrow> string option \<Rightarrow> string option \<Rightarrow> state
     \<Rightarrow> (error + rpc_result) \<times> state" where
  "getTransferLogs p cfg from_block to_block fromAddr toAddr st =
     (if BETTA_CONTRACT cfg = [] then (Inl (Error ''BETTA_CONTRACT_ADDRESS not set''), st)
      else rpc p cfg
        (Eth_getLogs \<lparr>address = BETTA_CONTRACT cfg,
                      fromBlock = toHexBlock from_block,
                      toBlock = toHexBlock to_block,
                      filter_topics = [Some TRANSFER_SIG, topic_of fromAddr, topic_of toAddr, None]\<rparr>)
        st)"

section \<open>Owned token cache via logs\<close>

text \<open>
  \<open>for (const lg of logs)\<close>: an array yields its records, a string yields its characters
  (which have no \<open>topics\<close>), \<open>null\<close> is not iterable.
\<close>

definition iterate :: "rpc_result \<Rightarrow> error + log list" where
  "iterate v =
     (case v of
        RNull \<Rightarrow> Inl (TypeError ''logs is not iterable'')
      | RStr s \<Rightarrow> Inr (map (\<lambda>c. \<lparr>topics = []\<rparr>) s)
      | RLogs ls \<Rightarrow> Inr ls)"

fun add_received :: "log list \<Rightarrow> int list \<Rightarrow> int list" where
  "add_received [] s = s"
| "add_received (lg # lgs) s =
     add_received lgs (case tokenIdFromLog lg of None \<Rightarrow> s | Some tid \<Rightarrow> set_add tid s)"

fun delete_sent :: "log list \<Rightarrow> int list \<Rightarrow> int list" where
  "delete_sent [] s = s"
| "delete_sent (lg # lgs) s =
     delete_sent lgs (case tokenIdFromLog lg of None \<Rightarrow> s | Some tid \<Rightarrow> set_delete tid s)"

text \<open>One iteration of the scan loop: the body of \<open>for (let from = start; ...)\<close>.\<close>

definition scan_chunk ::
  "provider \<Rightarrow> config \<Rightarrow> string \<Rightarrow> int \<Rightarrow> int \<Rightarrow> int list \<Rightarrow> state
     \<Rightarrow> (error + int list) \<times> state" where
  "scan_chunk p cfg w from_block to_block s st =
     (case getTransferLogs p cfg from_block to_block None (Some w) st of
        (Inl e, st1) \<Rightarrow> (Inl e, st1)
      | (Inr r1, st1) \<Rightarrow>
          (case iterate r1 of
             Inl e \<Rightarrow> (Inl e, st1)
           | Inr logsTo \<Rightarrow>
               (case getTransferLogs p cfg from_block to_block (Some w) None st1 of
                  (Inl e, st2) \<Rightarrow> (Inl e, st2)
                | (Inr r2, st2) \<Rightarrow>
                    (case iterate r2 of
                       Inl e \<Rightarrow> (Inl e, st2)
                     | Inr logsFrom \<Rightarrow>
                         (Inr (delete_sent logsFrom (add_received logsTo s)), st2)))))"

definition chunk_end :: "config \<Rightarrow> int \<Rightarrow> int \<Rightarrow> int" where
  "chunk_end cfg from_block latest =
     (if from_block + LOG_CHUNK cfg - 1 > latest then latest else from_block + LOG_CHUNK cfg - 1)"

text \<open>
  The scan loop. It does not return when \<open>LOG_CHUNK\<close> is not positive and no fetch fails,
  so it is a partial function: \<open>None\<close> is "does not return".
\<close>

partial_function (option) scan_loop ::
  "provider \<Rightarrow> config \<Rightarrow> string \<Rightarrow> int \<Rightarrow> int \<Rightarrow> int list \<Rightarrow> state
     \<Rightarrow> ((error + int list) \<times> state) option" where
  "scan_loop p cfg w latest from_block s st =
     (if from_block \<le> latest then
        (case scan_chunk p cfg w from_block (chunk_end cfg from_block latest) s st of
           (Inl e, st') \<Rightarrow> Some (Inl e, st')
         | (Inr s', st') \<Rightarrow> scan_loop p cfg w latest (from_block + LOG_CHUNK cfg) s' st')
      else Some (Inr s, st))"

definition start_block :: "config \<Rightarrow> checkpoint \<Rightarrow> int" where
  "start_block cfg entry =
     (case lastScannedBlock entry of
        None \<Rightarrow> START_BLOCK cfg
      | Some prev \<Rightarrow> if prev + 1 > START_BLOCK cfg then prev + 1 else START_BLOCK cfg)"

text \<open>\<open>ownedCache[w] = cp; writeJsonAtomic(OWNED_CACHE_PATH, ownedCache)\<close>.\<close>

definition store_checkpoint :: "string \<Rightarrow> checkpoint \<Rightarrow> state \<Rightarrow> state" where
  "store_checkpoint w cp st = writeJsonAtomic (st\<lparr>ownedCache := (ownedCache st)(w \<mapsto> cp)\<rparr>)"

text \<open>\<open>ownedCache[w] || { lastScannedBlock: null, tokenIds: [] }\<close>.\<close>

definition cached_entry :: "state \<Rightarrow> string \<Rightarrow> checkpoint" where
  "cached_entry st w =
     (case ownedCache st w of
        Some e \<Rightarrow> e
      | None \<Rightarrow> \<lparr>lastScannedBlock = None, tokenIds = []\<rparr>)"

definition updateOwnedTokensForWallet ::
  "provider \<Rightarrow> config \<Rightarrow> string \<Rightarrow> state \<Rightarrow> ((error + checkpoint) \<times> state) option" where
  "updateOwnedTokensForWallet p cfg wallet st =
     (if BETTA_CONTRACT cfg = [] then Some (Inl (Error ''BETTA_CONTRACT_ADDRESS not set''), st)
      else
        let w = toLowerCase (trim wallet) in
        if \<not> isHexAddress w then Some (Inl (Error ''INVALID_WALLET''), st)
        else
          let entry = cached_entry st w in
          (case getLatestBlockNumber p cfg st of
             (Inl e, st1) \<Rightarrow> Some (Inl e, st1)
           | (Inr latest, st1) \<Rightarrow>
               let start = start_block cfg entry;
                   s = new_Set (tokenIds entry)
               in
               if start > latest then
                 let cp = \<lparr>lastScannedBlock = Some latest, tokenIds = sortTokenIds s\<rparr>
                 in Some (Inr cp, store_checkpoint w cp st1)
               else
                 (case scan_loop p cfg w latest start s st1 of
                    None \<Rightarrow> None
                  | Some (Inl e, st2) \<Rightarrow> Some (Inl e, st2)
                  | Some (Inr s', st2) \<Rightarrow>
                      let cp = \<lparr>lastScannedBlock = Some latest, tokenIds = sortTokenIds s'\<rparr>
                      in Some (Inr cp, store_checkpoint w cp st2))))"

section \<open>The route \<open>GET /owned\<close>\<close>

record query =
  q_wallet :: string
  q_address :: string
  q_owner :: string
  q_walletAddress :: string

datatype response =
    Owned string "int list" "int option" bool
  | Failure nat string string

text \<open>
  \<open>req.query.wallet || req.query.address || req.query.owner || req.query.walletAddress\<close>;
  an absent parameter is the empty string.
\<close>

definition query_wallet :: "query \<Rightarrow> string" where
  "query_wallet q =
     (if q_wallet q \<noteq> [] then q_wallet q
      else if q_address q \<noteq> [] then q_address q
      else if q_owner q \<noteq> [] then q_owner q
      else q_walletAddress q)"

text \<open>The slow path of the handler: refresh, then answer; a thrown error becomes a 500.\<close>

definition refresh_response ::
  "provider \<Rightarrow> config \<Rightarrow> string \<Rightarrow> state \<Rightarrow> (response \<times> state) option" where
  "refresh_response p cfg wallet st =
     (case updateOwnedTokensForWallet p cfg wallet st of
        None \<Rightarrow> None
      | Some (Inl e, st') \<Rightarrow> Some (Failure 500 ''INTERNAL_ERROR'' (error_text e), st')
      | Some (Inr entry, st') \<Rightarrow>
          Some (Owned wallet (tokenIds entry) (lastScannedBlock entry) False, st'))"

definition get_owned ::
  "provider \<Rightarrow> config \<Rightarrow> query \<Rightarrow> state \<Rightarrow> (response \<times> state) option" where
  "get_owned p cfg q st =
     (let wallet = toLowerCase (trim (query_wallet q)) in
      if \<not> isHexAddress wallet then Some (Failure 400 ''INVALID_WALLET'' [], st)
      else if BETTA_CONTRACT cfg = []
      then Some (Failure 500 ''MISSING_CONTRACT_ENV'' ''BETTA_CONTRACT_ADDRESS not set'', st)
      else
        (case ownedCache st wallet of
           Some cached \<Rightarrow>
             if tokenIds cached \<noteq> []
             then Some (Owned wallet (tokenIds cached) (lastScannedBlock cached) True, st)
             else refresh_response p cfg wallet st
         | None \<Rightarrow> refresh_response p cfg wallet st))"

section \<open>Notions used in the statements\<close>

subsection \<open>The attempts of one remote call\<close>

text \<open>
  The attempts \<open>rpc\<close> may make over a rotation, in order: each URL immediately and once more
  after the backoff of 350 ms.
\<close>

definition attempt_plan :: "string list \<Rightarrow> (string \<times> nat) list" where
  "attempt_plan urls = concat (map (\<lambda>url. [(url, 0), (url, 350)]) urls)"

text \<open>What each planned attempt yields when the fetches before it have all been made.\<close>

fun planned_results ::
  "provider \<Rightarrow> nat \<Rightarrow> request \<Rightarrow> (string \<times> nat) list \<Rightarrow> (error + rpc_result) list" where
  "planned_results p n req [] = []"
| "planned_results p n req ((url, backoff) # plan) =
     response_result (p n url req) # planned_results p (Suc n) req plan"

text \<open>An attempt is transient when it throws an error that \<open>shouldFailover\<close> accepts.\<close>

definition transient :: "error + rpc_result \<Rightarrow> bool" where
  "transient r = (case r of Inl e \<Rightarrow> shouldFailover (error_text e) | Inr v \<Rightarrow> False)"

fun attempts_made :: "(error + rpc_result) list \<Rightarrow> nat" where
  "attempts_made [] = 0"
| "attempts_made (r # rs) = (if transient r then Suc (attempts_made rs) else 1)"

fun final_result :: "(error + rpc_result) list \<Rightarrow> error option \<Rightarrow> error + rpc_result" where
  "final_result [] lastErr = Inl (case lastErr of Some e \<Rightarrow> e | None \<Rightarrow> Error ''RPC_FAILED'')"
| "final_result (r # rs) lastErr =
     (case r of
        Inr v \<Rightarrow> Inr v
      | Inl e \<Rightarrow> if shouldFailover (error_text e) then final_result rs (Some e) else Inl e)"

definition log_attempts :: "request \<Rightarrow> (string \<times> nat) list \<Rightarrow> state \<Rightarrow> state" where
  "log_attempts req plan st = st\<lparr>fetched := fetched st @ map (\<lambda>(u, b). (u, b, req)) plan\<rparr>"

text \<open>The result of the \<open>i\<close>-th attempt (from \<open>0\<close>) of the call \<open>rpc p cfg req\<close> made in \<open>st\<close>.\<close>

definition attempt_result ::
  "provider \<Rightarrow> config \<Rightarrow> request \<Rightarrow> state \<Rightarrow> nat \<Rightarrow> error + rpc_result" where
  "attempt_result p cfg req st i =
     response_result
       (p (length (fetched st) + i)
          (fst (attempt_plan (fst (pickRpcUrlsRoundRobin cfg st)) ! i)) req)"

subsection \<open>The error classification\<close>

text \<open>The substrings that \<open>shouldFailover\<close> looks for, in the order of the source.\<close>

definition failover_markers :: "string list" where
  "failover_markers =
     [''no backend is currently healthy'', ''http 503'', ''http 502'', ''http 504'', ''rate'',
      ''timeout'', ''timed out'', ''gateway'', ''temporarily'', ''busy'']"

text \<open>
  The classification as the specification words it: an error is transient when its text
  carries a signal for HTTP 502/503/504 (the status, or the word gateway of their reason
  phrases), for rate limiting (the phrase, or status 429 and its reason phrase), for a
  timeout, or for a temporarily unavailable service.
\<close>

definition claimed_transient :: "string \<Rightarrow> bool" where
  "claimed_transient msg =
     (let s = toLowerCase msg in
      (str_includes s ''http 502'' \<or> str_includes s ''http 503'' \<or> str_includes s ''http 504''
         \<or> str_includes s ''gateway'')
      \<or> (str_includes s ''rate limit'' \<or> str_includes s ''rate-limit''
         \<or> str_includes s ''ratelimit'' \<or> str_includes s ''http 429''
         \<or> str_includes s ''too many requests'')
      \<or> (str_includes s ''timeout'' \<or> str_includes s ''timed out'')
      \<or> (str_includes s ''temporarily'' \<or> str_includes s ''unavailable''
         \<or> str_includes s ''busy'' \<or> str_includes s ''no backend is currently healthy''))"

text \<open>An authentication failure: HTTP 401 with a body that asks for a new key.\<close>

definition auth_failure :: outcome where
  "auth_failure = Response 401 ''Unauthorized: generate an API key'' JFalsy"

definition always_unauthorized :: provider where
  "always_unauthorized n url req = auth_failure"

subsection \<open>Progress of the scan loop\<close>

text \<open>
  The loop variables (\<open>from\<close>, the set, the state) after \<open>n\<close> iterations of the scan loop
  that all completed; \<open>None\<close> when the loop ends or throws before that.
\<close>

fun after_chunks ::
  "provider \<Rightarrow> config \<Rightarrow> string \<Rightarrow> int \<Rightarrow> nat \<Rightarrow> int \<Rightarrow> int list \<Rightarrow> state
     \<Rightarrow> (int \<times> int list \<times> state) option" where
  "after_chunks p cfg w latest 0 from_block s st = Some (from_block, s, st)"
| "after_chunks p cfg w latest (Suc n) from_block s st =
     (if from_block \<le> latest then
        (case scan_chunk p cfg w from_block (chunk_end cfg from_block latest) s st of
           (Inl e, st') \<Rightarrow> None
         | (Inr s', st') \<Rightarrow> after_chunks p cfg w latest n (from_block + LOG_CHUNK cfg) s' st')
      else None)"

subsection \<open>An honest provider over a chain history\<close>

text \<open>
  \<open>eth_getLogs\<close> topic matching: a \<open>null\<close> position matches anything, a given topic must be
  there and equal.
\<close>

fun topics_match :: "string option list \<Rightarrow> string list \<Rightarrow> bool" where
  "topics_match [] lts = True"
| "topics_match (None # ts) lts = topics_match ts (tl lts)"
| "topics_match (Some t # ts) [] = False"
| "topics_match (Some t # ts) (l # lts) = (t = l \<and> topics_match ts lts)"

text \<open>
  A chain history is the list of the contract's logs with their block numbers, in chain
  order. The provider answers \<open>eth_getLogs\<close> with the logs of the block range that match the
  topics, and \<open>eth_blockNumber\<close> with the head.
\<close>

definition eth_getLogs :: "(int \<times> log) list \<Rightarrow> log_filter \<Rightarrow> outcome" where
  "eth_getLogs history f =
     (case (StringToBigInt (fromBlock f), StringToBigInt (toBlock f)) of
        (Some a, Some b) \<Rightarrow>
          Response 200 ''{result}''
            (JResult (RLogs (map snd
               (filter (\<lambda>(bn, lg). a \<le> bn \<and> bn \<le> b \<and> topics_match (filter_topics f) (topics lg))
                  history))))
      | _ \<Rightarrow> Response 200 ''{error}'' (JError ''invalid block range''))"

definition chain_provider :: "int \<Rightarrow> (int \<times> log) list \<Rightarrow> provider" where
  "chain_provider head history n url req =
     (case req of
        Eth_blockNumber \<Rightarrow> Response 200 ''{result}'' (JResult (RStr (toHexBlock head)))
      | Eth_getLogs f \<Rightarrow> eth_getLogs history f)"

text \<open>The log of a transfer of a token between two addresses.\<close>

definition transfer :: "string \<Rightarrow> string \<Rightarrow> int \<Rightarrow> log" where
  "transfer sender receiver tokenId =
     \<lparr>topics = [TRANSFER_SIG, topicForAddress sender, topicForAddress receiver,
                 ''0x'' @ pad64No0x (toString_radix 16 tokenId)]\<rparr>"

subsection \<open>Transfer events in block order\<close>

text \<open>The logs the two queries of a chunk select: transfers to and from the wallet.\<close>

definition incoming :: "string \<Rightarrow> log \<Rightarrow> bool" where
  "incoming w lg = topics_match [Some TRANSFER_SIG, None, Some (topicForAddress w), None] (topics lg)"

definition outgoing :: "string \<Rightarrow> log \<Rightarrow> bool" where
  "outgoing w lg = topics_match [Some TRANSFER_SIG, Some (topicForAddress w), None, None] (topics lg)"

text \<open>Applying one event: add its token if it is incoming, then remove it if it is outgoing.\<close>

definition apply_event :: "string \<Rightarrow> int list \<Rightarrow> log \<Rightarrow> int list" where
  "apply_event w s lg =
     delete_sent (if outgoing w lg then [lg] else [])
       (add_received (if incoming w lg then [lg] else []) s)"

definition replay :: "string \<Rightarrow> log list \<Rightarrow> int list \<Rightarrow> int list" where
  "replay w lgs s = foldl (apply_event w) s lgs"



text \<open>The token ids that a list of logs carries.\<close>

definition token_ids :: "log list \<Rightarrow> int set" where
  "token_ids lgs = {tid. \<exists>lg \<in> set lgs. tokenIdFromLog lg = Some tid}"

text \<open>What one chunk does to the set when both queries are answered from the history.\<close>

definition chunk_apply :: "string \<Rightarrow> (int \<times> log) list \<Rightarrow> int list \<Rightarrow> int \<times> int \<Rightarrow> int list" where
  "chunk_apply w history s chunk =
     delete_sent
       (map snd (filter (\<lambda>(bn, lg). fst chunk \<le> bn \<and> bn \<le> snd chunk \<and> outgoing w lg) history))
       (add_received
          (map snd (filter (\<lambda>(bn, lg). fst chunk \<le> bn \<and> bn \<le> snd chunk \<and> incoming w lg) history))
          s)"

text \<open>The chunks the scan loop visits from \<open>from\<close> to \<open>latest\<close> when \<open>LOG_CHUNK\<close> is positive.\<close>

function chunk_ranges :: "config \<Rightarrow> int \<Rightarrow> int \<Rightarrow> (int \<times> int) list" where
  "chunk_ranges cfg from_block latest =
     (if from_block \<le> latest \<and> 0 < LOG_CHUNK cfg
      then (from_block, chunk_end cfg from_block latest)
             # chunk_ranges cfg (from_block + LOG_CHUNK cfg) latest
      else [])"
  by pat_completeness auto
termination
  by (relation "measure (\<lambda>(cfg, from_block, latest). nat (latest - from_block + 1))") auto

declare chunk_ranges.simps [simp del]


subsection \<open>Sequences of refresh calls\<close>

text \<open>
  The refresh calls for a list of wallets, one after the other; the results in order and the
  final state.
\<close>

fun refresh_all ::
  "provider \<Rightarrow> config \<Rightarrow> string list \<Rightarrow> state \<Rightarrow> ((error + checkpoint) list \<times> state) option" where
  "refresh_all p cfg [] st = Some ([], st)"
| "refresh_all p cfg (wallet # wallets) st =
     (case updateOwnedTokensForWallet p cfg wallet st of
        None \<Rightarrow> None
      | Some (r, st') \<Rightarrow>
          (case refresh_all p cfg wallets st' of
             None \<Rightarrow> None
           | Some (rs, st'') \<Rightarrow> Some (r # rs, st'')))"

subsection \<open>A chain without new events\<close>

text \<open>
  A chain history holds no new transfer event of a wallet between two observed chain heads:
  no log of a block after \<open>head1\<close> and up to \<open>head2\<close> is a transfer to or from the wallet.
  Logs of other blocks, and transfers between other addresses, are not restricted.
\<close>

definition no_new_events :: "string \<Rightarrow> (int \<times> log) list \<Rightarrow> int \<Rightarrow> int \<Rightarrow> bool" where
  "no_new_events w history head1 head2 =
     list_all (\<lambda>(bn, lg). head1 < bn \<and> bn \<le> head2 \<longrightarrow> \<not> incoming w lg \<and> \<not> outgoing w lg) history"

subsection \<open>Malformed log records\<close>

text \<open>
  A log record is malformed when its token-identifier topic is missing (there is no fourth
  topic, or it is the empty string) or is not parseable as an integer.
\<close>

definition malformed :: "log \<Rightarrow> bool" where
  "malformed lg =
     (length (topics lg) \<le> 3 \<or> topics lg ! 3 = [] \<or> StringToBigInt (topics lg ! 3) = None)"

text \<open>
  The token id that a well-formed record carries is the integer its fourth topic denotes;
  the ids carried by the well-formed records of a list, in order.
\<close>

definition carried_id :: "log \<Rightarrow> int" where
  "carried_id lg = the (StringToBigInt (topics lg ! 3))"

definition well_formed_ids :: "log list \<Rightarrow> int list" where
  "well_formed_ids lgs = map carried_id (filter (\<lambda>lg. \<not> malformed lg) lgs)"

definition drop_malformed :: "rpc_result \<Rightarrow> rpc_result" where
  "drop_malformed r = (case r of RLogs ls \<Rightarrow> RLogs (filter (\<lambda>lg. \<not> malformed lg) ls) | _ \<Rightarrow> r)"

definition drop_malformed_result :: "error + rpc_result \<Rightarrow> error + rpc_result" where
  "drop_malformed_result x = (case x of Inl e \<Rightarrow> Inl e | Inr r \<Rightarrow> Inr (drop_malformed r))"

text \<open>The provider \<open>p\<close> with the malformed records removed from every answer to a log query.\<close>

definition without_malformed :: "provider \<Rightarrow> provider" where
  "without_malformed p n url req =
     (case req of
        Eth_blockNumber \<Rightarrow> p n url req
      | Eth_getLogs f \<Rightarrow>
          (case p n url req of
             Response status text (JResult r) \<Rightarrow> Response status text (JResult (drop_malformed r))
           | out \<Rightarrow> out))"

subsection \<open>Concrete configurations and providers\<close>

definition two_endpoints :: config where
  "two_endpoints =
     \<lparr>RPC_URLS = [''https://a.example'', ''https://b.example''],
      BETTA_CONTRACT = ''0x00000000000000000000000000000000000000c0'',
      START_BLOCK = 1,
      LOG_CHUNK = 20000\<rparr>"

definition initial_state :: state where
  "initial_state =
     \<lparr>ownedCache = Map.empty, wallet_owned_json = Map.empty, rpcCursor = 0, fetched = []\<rparr>"

text \<open>A provider both of whose endpoints always answer HTTP 503.\<close>

definition always_503 :: provider where
  "always_503 n url req = Response 503 ''Service Unavailable'' JFalsy"

definition alice :: string where
  "alice = ''0x00000000000000000000000000000000000000a1''"

definition bob :: string where
  "bob = ''0x00000000000000000000000000000000000000b2''"

definition small_chunks :: config where
  "small_chunks = two_endpoints\<lparr>LOG_CHUNK := 2\<rparr>"

text \<open>
  A provider that reports block 3 as the chain head and answers \<open>eth_getLogs\<close> with an empty
  list until the process has made three fetches, and with HTTP 401 from then on.
\<close>

definition unauthorized_later :: provider where
  "unauthorized_later n url req =
     (case req of
        Eth_blockNumber \<Rightarrow> Response 200 ''{result}'' (JResult (RStr ''0x3''))
      | Eth_getLogs f \<Rightarrow>
          if n < 3 then Response 200 ''{result}'' (JResult (RLogs []))
          else Response 401 ''Unauthorized'' JFalsy)"

text \<open>A state in which the wallet \<open>alice\<close> has been scanned up to block 3 and owns 7 and 5.\<close>

definition scanned_state :: state where
  "scanned_state =
     \<lparr>ownedCache = [alice \<mapsto> \<lparr>lastScannedBlock = Some 3, tokenIds = [7, 5]\<rparr>],
      wallet_owned_json = [alice \<mapsto> \<lparr>lastScannedBlock = Some 3, tokenIds = [7, 5]\<rparr>],
      rpcCursor = 0,
      fetched = []\<rparr>"

definition query_for :: "string \<Rightarrow> query" where
  "query_for wallet = \<lparr>q_wallet = wallet, q_address = [], q_owner = [], q_walletAddress = []\<rparr>"



text \<open>A history in which \<open>alice\<close> receives token \<open>2^53 + 1\<close> and then token \<open>2^53\<close>.\<close>

definition large_ids :: "(int \<times> log) list" where
  "large_ids =
     [(1, transfer bob alice 9007199254740993), (2, transfer bob alice 9007199254740992)]"

text \<open>
  Two endpoints that disagree on the chain head: the first reports block 10, the second
  lags behind at block 5. Neither has any log.
\<close>

definition lagging_endpoint :: provider where
  "lagging_endpoint n url req =
     (case req of
        Eth_blockNumber \<Rightarrow>
          Response 200 ''{result}''
            (JResult (RStr (if url = ''https://a.example'' then ''0xa'' else ''0x5'')))
      | Eth_getLogs f \<Rightarrow> Response 200 ''{result}'' (JResult (RLogs [])))"

text \<open>
  A history with malformed records among the transfers of \<open>alice\<close>: she receives tokens 7
  and 5 and sends 7 away; between them are a record without a token topic, one whose token
  topic is the empty string and one whose token topic is not a number, and an outgoing
  record whose token topic is not a number.
\<close>

definition no_token_topic :: log where
  "no_token_topic = \<lparr>topics = [TRANSFER_SIG, topicForAddress bob, topicForAddress alice]\<rparr>"

definition empty_token_topic :: log where
  "empty_token_topic =
     \<lparr>topics = [TRANSFER_SIG, topicForAddress bob, topicForAddress alice, []]\<rparr>"

definition bad_token_topic :: log where
  "bad_token_topic =
     \<lparr>topics = [TRANSFER_SIG, topicForAddress bob, topicForAddress alice, ''0xzz'']\<rparr>"

definition bad_outgoing_topic :: log where
  "bad_outgoing_topic =
     \<lparr>topics = [TRANSFER_SIG, topicForAddress alice, topicForAddress bob, ''0xzz'']\<rparr>"

definition dirty_history :: "(int \<times> log) list" where
  "dirty_history =
     [(1, transfer bob alice 7), (1, no_token_topic), (1, empty_token_topic),
      (2, bad_token_topic), (2, transfer bob alice 5), (2, transfer alice bob 7),
      (2, bad_outgoing_topic)]"

text \<open>
  A provider that reports block 3 as the chain head and answers \<open>eth_getLogs\<close> with an empty
  list until the process has made two fetches, and with HTTP 401 from then on: the second
  log query of the first chunk fails.
\<close>

definition unauthorized_early :: provider where
  "unauthorized_early n url req =
     (case req of
        Eth_blockNumber \<Rightarrow> Response 200 ''{result}'' (JResult (RStr ''0x3''))
      | Eth_getLogs f \<Rightarrow>
          if n < 2 then Response 200 ''{result}'' (JResult (RLogs []))
          else Response 401 ''Unauthorized'' JFalsy)"

text \<open>
  A history in which \<open>alice\<close> receives token 7 in block 1 and token 5 in block 3, and the
  only later log, in block 4, is a transfer between two other addresses.
\<close>

definition carol :: string where
  "carol = ''0x00000000000000000000000000000000000000c3''"

definition quiet_history :: "(int \<times> log) list" where
  "quiet_history =
     [(1, transfer bob alice 7), (3, transfer bob alice 5), (4, transfer bob carol 9)]"

text \<open>The configuration of a process started without a contract address.\<close>

definition no_contract :: config where
  "no_contract = two_endpoints\<lparr>BETTA_CONTRACT := []\<rparr>"

text \<open>A state in which the wallet \<open>bob\<close> has been scanned up to block 3 and owns nothing.\<close>

definition empty_handed_state :: state where
  "empty_handed_state =
     \<lparr>ownedCache = [bob \<mapsto> \<lparr>lastScannedBlock = Some 3, tokenIds = []\<rparr>],
      wallet_owned_json = [bob \<mapsto> \<lparr>lastScannedBlock = Some 3, tokenIds = []\<rparr>],
      rpcCursor = 0,
      fetched = []\<rparr>"

text \<open>
  A state in which the wallet \<open>alice\<close> was last scanned up to block 0 and owns token 7.
\<close>

definition stale_state :: state where
  "stale_state =
     \<lparr>ownedCache = [alice \<mapsto> \<lparr>lastScannedBlock = Some 0, tokenIds = [7]\<rparr>],
      wallet_owned_json = [alice \<mapsto> \<lparr>lastScannedBlock = Some 0, tokenIds = [7]\<rparr>],
      rpcCursor = 0,
      fetched = []\<rparr>"

section \<open>The retry and failover policy\<close>

lemma log_attempts_Nil [simp]: "log_attempts req [] st = st"
  by (simp add: log_attempts_def)

lemma attempt_eq:
  "attempt p url backoff req st =
     (response_result (p (length (fetched st)) url req), log_attempts req [(url, backoff)] st)"
  by (simp add: attempt_def fetchFn_def log_attempts_def)

lemma log_attempts_append:
  "log_attempts req ys (log_attempts req xs st) = log_attempts req (xs @ ys) st"
  by (simp add: log_attempts_def)

lemma length_fetched_log_attempts [simp]:
  "length (fetched (log_attempts req plan st)) = length (fetched st) + length plan"
  by (simp add: log_attempts_def)

lemma try_urls_eq:
  "try_urls p req urls lastErr st =
     (final_result (planned_results p (length (fetched st)) req (attempt_plan urls)) lastErr,
      log_attempts req
        (take (attempts_made (planned_results p (length (fetched st)) req (attempt_plan urls)))
           (attempt_plan urls)) st)"
proof (induction urls arbitrary: lastErr st)
  case Nil
  then show ?case by (simp add: attempt_plan_def)
next
  case (Cons url urls)
  have plan: "attempt_plan (url # urls) = (url, 0) # (url, 350) # attempt_plan urls"
    by (simp add: attempt_plan_def)
  show ?case
    by (simp add: plan attempt_eq Cons.IH transient_def log_attempts_append split: sum.splits)
qed

lemma attempts_made_le: "attempts_made rs \<le> length rs"
  by (induction rs) auto

lemma attempts_made_pos: "rs \<noteq> [] \<Longrightarrow> 1 \<le> attempts_made rs"
  by (cases rs) auto

lemma attempts_made_transient: "Suc i < attempts_made rs \<Longrightarrow> transient (rs ! i)"
proof (induction rs arbitrary: i)
  case Nil
  then show ?case by simp
next
  case (Cons r rs)
  then show ?case by (cases i) (auto split: if_splits)
qed

lemma final_result_not_transient:
  "\<not> transient r \<Longrightarrow> final_result (r # rs) lastErr = r"
  by (cases r) (auto simp: transient_def)

lemma final_result_transient:
  "transient r \<Longrightarrow> final_result (r # rs) lastErr = final_result rs (Some (projl r))"
  by (cases r) (auto simp: transient_def)

lemmas final_result_Nil = final_result.simps(1)

declare final_result.simps [simp del]

lemma final_result_last:
  "rs \<noteq> [] \<Longrightarrow> final_result rs lastErr = rs ! (attempts_made rs - 1)"
proof (induction rs arbitrary: lastErr)
  case Nil
  then show ?case by simp
next
  case (Cons r rs)
  show ?case
  proof (cases "transient r")
    case False
    then show ?thesis by (simp add: final_result_not_transient)
  next
    case True
    show ?thesis
    proof (cases "rs = []")
      case True
      with \<open>transient r\<close> show ?thesis
        by (cases r) (simp_all add: transient_def final_result_transient final_result_Nil)
    next
      case False
      then have "1 \<le> attempts_made rs" by (rule attempts_made_pos)
      then obtain k where k: "attempts_made rs = Suc k" by (cases "attempts_made rs") auto
      from False have "final_result rs (Some (projl r)) = rs ! (attempts_made rs - 1)"
        by (rule Cons.IH)
      with True k show ?thesis by (simp add: final_result_transient)
    qed
  qed
qed

lemma final_result_exhausted:
  "final_result rs lastErr = Inl e \<Longrightarrow> rs \<noteq> [] \<Longrightarrow> shouldFailover (error_text e)
     \<Longrightarrow> attempts_made rs = length rs"
proof (induction rs arbitrary: lastErr)
  case Nil
  then show ?case by simp
next
  case (Cons r rs)
  show ?case
  proof (cases "transient r")
    case False
    with Cons.prems have "r = Inl e" by (simp add: final_result_not_transient)
    with Cons.prems(3) False show ?thesis by (simp add: transient_def)
  next
    case True
    show ?thesis
    proof (cases "rs = []")
      case True
      with \<open>transient r\<close> show ?thesis by simp
    next
      case False
      from Cons.prems(1) True have "final_result rs (Some (projl r)) = Inl e"
        by (simp add: final_result_transient)
      then have "attempts_made rs = length rs"
        using False Cons.prems(3) by (rule Cons.IH)
      with True show ?thesis by simp
    qed
  qed
qed

lemma planned_results_length [simp]: "length (planned_results p n req plan) = length plan"
  by (induction plan arbitrary: n) auto

lemma planned_results_nth:
  "i < length plan \<Longrightarrow> planned_results p n req plan ! i = response_result (p (n + i) (fst (plan ! i)) req)"
proof (induction plan arbitrary: n i)
  case Nil
  then show ?case by simp
next
  case (Cons a plan)
  then show ?case by (cases a; cases i) auto
qed

lemma length_attempt_plan [simp]: "length (attempt_plan urls) = 2 * length urls"
  by (induction urls) (auto simp: attempt_plan_def)

lemma pick_nonempty: "fst (pickRpcUrlsRoundRobin cfg st) \<noteq> []"
  by (auto simp: pickRpcUrlsRoundRobin_def Let_def)

lemma rpc_eq:
  "rpc p cfg req st =
     (final_result (planned_results p (length (fetched st)) req (attempt_plan (fst (pickRpcUrlsRoundRobin cfg st)))) None,
      log_attempts req
        (take (attempts_made (planned_results p (length (fetched st)) req (attempt_plan (fst (pickRpcUrlsRoundRobin cfg st)))))
           (attempt_plan (fst (pickRpcUrlsRoundRobin cfg st))))
        (snd (pickRpcUrlsRoundRobin cfg st)))"
proof -
  have "length (fetched (snd (pickRpcUrlsRoundRobin cfg st))) = length (fetched st)"
    by (simp add: pickRpcUrlsRoundRobin_def Let_def)
  then show ?thesis
    by (cases "pickRpcUrlsRoundRobin cfg st") (simp add: rpc_def try_urls_eq)
qed

lemma rpc_attempts:
  "\<exists>k. 1 \<le> k \<and> k \<le> 2 * length (fst (pickRpcUrlsRoundRobin cfg st))
     \<and> fetched (snd (rpc p cfg req st)) =
         fetched st @ map (\<lambda>(url, backoff). (url, backoff, req))
           (take k (attempt_plan (fst (pickRpcUrlsRoundRobin cfg st))))
     \<and> (\<forall>i. Suc i < k \<longrightarrow> transient (attempt_result p cfg req st i))
     \<and> fst (rpc p cfg req st) = attempt_result p cfg req st (k - 1)
     \<and> (\<forall>e. fst (rpc p cfg req st) = Inl e \<longrightarrow>
           \<not> shouldFailover (error_text e) \<or> k = 2 * length (fst (pickRpcUrlsRoundRobin cfg st)))"
proof -
  define urls where "urls = fst (pickRpcUrlsRoundRobin cfg st)"
  define plan where "plan = attempt_plan urls"
  define rs where "rs = planned_results p (length (fetched st)) req plan"
  define k where "k = attempts_made rs"
  have urls: "urls \<noteq> []" unfolding urls_def by (rule pick_nonempty)
  have len: "length rs = 2 * length urls" by (simp add: rs_def plan_def)
  with urls have rs: "rs \<noteq> []" by auto
  have res: "fst (rpc p cfg req st) = final_result rs None"
    by (simp add: rpc_eq rs_def plan_def urls_def)
  have fet: "fetched (snd (rpc p cfg req st)) = fetched st @ map (\<lambda>(url, backoff). (url, backoff, req)) (take k plan)"
    by (simp add: rpc_eq rs_def plan_def urls_def k_def log_attempts_def pickRpcUrlsRoundRobin_def Let_def)
  have k1: "1 \<le> k" unfolding k_def using rs by (rule attempts_made_pos)
  have k2: "k \<le> 2 * length urls" unfolding k_def using attempts_made_le[of rs] len by simp
  have nth: "rs ! i = attempt_result p cfg req st i" if "i < k" for i
    using that k2 by (simp add: rs_def planned_results_nth attempt_result_def plan_def urls_def)
  have tr: "transient (attempt_result p cfg req st i)" if "Suc i < k" for i
    using attempts_made_transient[of i rs] that nth[of i] by (simp add: k_def)
  have last: "fst (rpc p cfg req st) = attempt_result p cfg req st (k - 1)"
    using final_result_last[OF rs, of None] nth[of "k - 1"] k1 by (simp add: res k_def)
  have ex: "\<not> shouldFailover (error_text e) \<or> k = 2 * length urls" if "fst (rpc p cfg req st) = Inl e" for e
    using final_result_exhausted[of rs None e] that rs len by (auto simp: res k_def)
  from k1 k2 fet tr last ex show ?thesis
    unfolding urls_def plan_def by blast
qed

text \<open>
  Claim C4. Every call of \<open>rpc\<close> makes \<open>k\<close> fetches with \<open>1 \<le> k \<le> 2 * endpoints\<close>, and they
  are the first \<open>k\<close> entries of the plan "each endpoint of the rotation immediately and once
  more after the backoff". All attempts but the last threw a transient error, the call
  yields what the last attempt yields (its result, or its error), and a call that throws
  either throws a fatal error at once or has used up all \<open>2 * endpoints\<close> attempts.
\<close>

theorem rpc_retry_then_failover:
  "\<exists>k. 1 \<le> k \<and> k \<le> 2 * length (fst (pickRpcUrlsRoundRobin cfg st))
     \<and> fetched (snd (rpc p cfg req st)) =
         fetched st @ map (\<lambda>(url, backoff). (url, backoff, req))
           (take k (attempt_plan (fst (pickRpcUrlsRoundRobin cfg st))))
     \<and> (\<forall>i. Suc i < k \<longrightarrow> transient (attempt_result p cfg req st i))
     \<and> fst (rpc p cfg req st) = attempt_result p cfg req st (k - 1)
     \<and> (\<forall>e. fst (rpc p cfg req st) = Inl e \<longrightarrow>
           \<not> shouldFailover (error_text e) \<or> k = 2 * length (fst (pickRpcUrlsRoundRobin cfg st)))"
  by (rule rpc_attempts)

lemma always_503_result:
  "fst (rpc always_503 two_endpoints Eth_blockNumber initial_state) =
     Inl (Error ''RPC HTTP 503: Service Unavailable'')"
  by (simp add: rpc_def pickRpcUrlsRoundRobin_def two_endpoints_def initial_state_def
      attempt_def fetchFn_def response_result_def always_503_def toString_radix_def
      toString_digits.simps digit_char_def error_text_def shouldFailover_def toLowerCase_def
      toLowerCase_char_def)

lemma always_503_fetched:
  "fetched (snd (rpc always_503 two_endpoints Eth_blockNumber initial_state)) =
     [(''https://a.example'', 0, Eth_blockNumber), (''https://a.example'', 350, Eth_blockNumber),
      (''https://b.example'', 0, Eth_blockNumber), (''https://b.example'', 350, Eth_blockNumber)]"
  by (simp add: rpc_def pickRpcUrlsRoundRobin_def two_endpoints_def initial_state_def
      attempt_def fetchFn_def response_result_def always_503_def toString_radix_def
      toString_digits.simps digit_char_def error_text_def shouldFailover_def toLowerCase_def
      toLowerCase_char_def)

theorem rpc_retry_then_failover_witness:
  "fst (rpc always_503 two_endpoints Eth_blockNumber initial_state) =
     Inl (Error ''RPC HTTP 503: Service Unavailable'')
   \<and> shouldFailover (error_text (Error ''RPC HTTP 503: Service Unavailable''))
   \<and> length (fetched (snd (rpc always_503 two_endpoints Eth_blockNumber initial_state))) = 4
   \<and> transient (attempt_result always_503 two_endpoints Eth_blockNumber initial_state 0)
   \<and> transient (attempt_result always_503 two_endpoints Eth_blockNumber initial_state 1)
   \<and> transient (attempt_result always_503 two_endpoints Eth_blockNumber initial_state 2)
   \<and> attempt_result always_503 two_endpoints Eth_blockNumber initial_state 3 =
       Inl (Error ''RPC HTTP 503: Service Unavailable'')"
proof -
  let ?r = "rpc always_503 two_endpoints Eth_blockNumber initial_state"
  let ?a = "attempt_result always_503 two_endpoints Eth_blockNumber initial_state"
  obtain k where k: "1 \<le> k"
    and f: "fetched (snd ?r) = fetched initial_state @ map (\<lambda>(url, backoff). (url, backoff, Eth_blockNumber))
              (take k (attempt_plan (fst (pickRpcUrlsRoundRobin two_endpoints initial_state))))"
    and t: "\<forall>i. Suc i < k \<longrightarrow> transient (?a i)"
    and l: "fst ?r = ?a (k - 1)"
    and e: "\<forall>e. fst ?r = Inl e \<longrightarrow> \<not> shouldFailover (error_text e)
              \<or> k = 2 * length (fst (pickRpcUrlsRoundRobin two_endpoints initial_state))"
    using rpc_retry_then_failover[of two_endpoints initial_state always_503 Eth_blockNumber]
    by blast
  have sf: "shouldFailover (error_text (Error ''RPC HTTP 503: Service Unavailable''))"
    by (simp add: error_text_def shouldFailover_def toLowerCase_def toLowerCase_char_def)
  have "k = 2 * length (fst (pickRpcUrlsRoundRobin two_endpoints initial_state))"
    using e always_503_result sf by blast
  then have k4: "k = 4"
    by (simp add: pickRpcUrlsRoundRobin_def two_endpoints_def)
  have len: "length (fetched (snd ?r)) = 4"
    by (simp add: always_503_fetched)
  from t k4 have "transient (?a 0)" "transient (?a 1)" "transient (?a 2)"
    by simp_all
  moreover from l k4 always_503_result have "?a 3 = Inl (Error ''RPC HTTP 503: Service Unavailable'')"
    by simp
  ultimately show ?thesis
    using always_503_result sf len by simp
qed


section \<open>A failed refresh\<close>

lemma rpc_store: "ownedCache (snd (rpc p cfg req st)) = ownedCache st \<and> wallet_owned_json (snd (rpc p cfg req st)) = wallet_owned_json st"
  by (simp add: rpc_eq log_attempts_def pickRpcUrlsRoundRobin_def Let_def)

lemma getLatestBlockNumber_store:
  "ownedCache (snd (getLatestBlockNumber p cfg st)) = ownedCache st \<and> wallet_owned_json (snd (getLatestBlockNumber p cfg st)) = wallet_owned_json st"
  using rpc_store[of p cfg Eth_blockNumber st]
  by (cases "rpc p cfg Eth_blockNumber st") (auto simp: getLatestBlockNumber_def split: sum.splits)

lemma getTransferLogs_store:
  "ownedCache (snd (getTransferLogs p cfg a b fa ta st)) = ownedCache st \<and> wallet_owned_json (snd (getTransferLogs p cfg a b fa ta st)) = wallet_owned_json st"
  by (simp add: getTransferLogs_def rpc_store)

lemma scan_chunk_store:
  "ownedCache (snd (scan_chunk p cfg w a b s st)) = ownedCache st \<and> wallet_owned_json (snd (scan_chunk p cfg w a b s st)) = wallet_owned_json st"
proof -
  obtain r1 st1 where 1: "getTransferLogs p cfg a b None (Some w) st = (r1, st1)" by fastforce
  obtain r2 st2 where 2: "getTransferLogs p cfg a b (Some w) None st1 = (r2, st2)" by fastforce
  from getTransferLogs_store[of p cfg a b None "Some w" st] 1
  have s1: "ownedCache st1 = ownedCache st \<and> wallet_owned_json st1 = wallet_owned_json st" by simp
  from getTransferLogs_store[of p cfg a b "Some w" None st1] 2
  have s2: "ownedCache st2 = ownedCache st1 \<and> wallet_owned_json st2 = wallet_owned_json st1" by simp
  show ?thesis using 1 2 s1 s2
    by (auto simp: scan_chunk_def split: sum.splits)
qed

lemma scan_loop_store:
  assumes "scan_loop p cfg w latest f s st = Some y"
  shows "ownedCache (snd y) = ownedCache st \<and> wallet_owned_json (snd y) = wallet_owned_json st"
proof (rule scan_loop.raw_induct
    [where P = "\<lambda>p cfg w latest f s st y.
       ownedCache (snd y) = ownedCache st \<and> wallet_owned_json (snd y) = wallet_owned_json st",
     OF _ assms])
  fix loop :: "provider \<Rightarrow> config \<Rightarrow> string \<Rightarrow> int \<Rightarrow> int \<Rightarrow> int list \<Rightarrow> state
      \<Rightarrow> ((error + int list) \<times> state) option"
    and p cfg w latest f s st y
  assume IH: "\<And>p cfg w latest f s st y. loop p cfg w latest f s st = Some y \<Longrightarrow>
     ownedCache (snd y) = ownedCache st \<and> wallet_owned_json (snd y) = wallet_owned_json st"
  assume body: "(if f \<le> latest
      then case scan_chunk p cfg w f (chunk_end cfg f latest) s st of
           (Inl e, st') \<Rightarrow> Some (Inl e, st')
           | (Inr s', st') \<Rightarrow> loop p cfg w latest (f + LOG_CHUNK cfg) s' st'
      else Some (Inr s, st)) = Some y"
  show "ownedCache (snd y) = ownedCache st \<and> wallet_owned_json (snd y) = wallet_owned_json st"
  proof (cases "f \<le> latest")
    case False
    with body show ?thesis by auto
  next
    case True
    obtain r st1 where c: "scan_chunk p cfg w f (chunk_end cfg f latest) s st = (r, st1)"
      by fastforce
    with scan_chunk_store[of p cfg w f "chunk_end cfg f latest" s st]
    have s1: "ownedCache st1 = ownedCache st \<and> wallet_owned_json st1 = wallet_owned_json st"
      by simp
    show ?thesis
    proof (cases r)
      case (Inl e)
      with body True c s1 show ?thesis by auto
    next
      case (Inr s')
      with body True c have "loop p cfg w latest (f + LOG_CHUNK cfg) s' st1 = Some y"
        by simp
      from IH[OF this] s1 show ?thesis by simp
    qed
  qed
qed


lemma rpc_fetched:
  "\<exists>k plan. 1 \<le> k \<and> k \<le> length plan \<and>
     fetched (snd (rpc p cfg req st)) = fetched st @ map (\<lambda>(url, backoff). (url, backoff, req)) (take k plan)"
  using rpc_attempts[of cfg st p req]
  by (metis length_attempt_plan)

lemma rpc_fetched_grows:
  "\<exists>u b rest. fetched (snd (rpc p cfg req st)) = fetched st @ (u, b, req) # rest"
proof -
  obtain k plan where k: "1 \<le> k" "k \<le> length plan"
    and f: "fetched (snd (rpc p cfg req st)) = fetched st @ map (\<lambda>(url, backoff). (url, backoff, req)) (take k plan)"
    using rpc_fetched by blast
  from k obtain x xs where "take k plan = x # xs"
    by (cases "take k plan") auto
  with f show ?thesis by (cases x) auto
qed

lemma rpc_fetched_requests:
  "\<forall>x \<in> set (drop (length (fetched st)) (fetched (snd (rpc p cfg req st)))). snd (snd x) = req"
proof -
  obtain k plan where 
    f: "fetched (snd (rpc p cfg req st)) = fetched st @ map (\<lambda>(url, backoff). (url, backoff, req)) (take k plan)"
    using rpc_fetched by blast
  show ?thesis by (auto simp: f)
qed

lemma rpc_prefix: "prefix (fetched st) (fetched (snd (rpc p cfg req st)))"
  using rpc_fetched_grows[of p cfg req st] by auto

lemma getLatestBlockNumber_fetched:
  "fetched (snd (getLatestBlockNumber p cfg st)) = fetched (snd (rpc p cfg Eth_blockNumber st))"
  by (cases "rpc p cfg Eth_blockNumber st") (auto simp: getLatestBlockNumber_def split: sum.splits)

lemma getTransferLogs_prefix:
  "prefix (fetched st) (fetched (snd (getTransferLogs p cfg a b fa ta st)))"
  by (simp add: getTransferLogs_def rpc_prefix)

lemma scan_chunk_prefix:
  "prefix (fetched st) (fetched (snd (scan_chunk p cfg w a b s st)))"
proof -
  obtain r1 st1 where 1: "getTransferLogs p cfg a b None (Some w) st = (r1, st1)" by fastforce
  obtain r2 st2 where 2: "getTransferLogs p cfg a b (Some w) None st1 = (r2, st2)" by fastforce
  from getTransferLogs_prefix[of st p cfg a b None "Some w"] 1
  have s1: "prefix (fetched st) (fetched st1)" by simp
  from getTransferLogs_prefix[of st1 p cfg a b "Some w" None] 2
  have s2: "prefix (fetched st1) (fetched st2)" by simp
  from s1 s2 have s3: "prefix (fetched st) (fetched st2)" by (rule prefix_order.trans)
  show ?thesis using 1 2 s1 s3
    by (auto simp: scan_chunk_def split: sum.splits)
qed

lemma scan_loop_prefix:
  assumes "scan_loop p cfg w latest f s st = Some y"
  shows "prefix (fetched st) (fetched (snd y))"
proof (rule scan_loop.raw_induct
    [where P = "\<lambda>p cfg w latest f s st y. prefix (fetched st) (fetched (snd y))", OF _ assms])
  fix loop :: "provider \<Rightarrow> config \<Rightarrow> string \<Rightarrow> int \<Rightarrow> int \<Rightarrow> int list \<Rightarrow> state
      \<Rightarrow> ((error + int list) \<times> state) option"
    and p cfg w latest f s st y
  assume IH: "\<And>p cfg w latest f s st y. loop p cfg w latest f s st = Some y \<Longrightarrow>
     prefix (fetched st) (fetched (snd y))"
  assume body: "(if f \<le> latest
      then case scan_chunk p cfg w f (chunk_end cfg f latest) s st of
           (Inl e, st') \<Rightarrow> Some (Inl e, st')
           | (Inr s', st') \<Rightarrow> loop p cfg w latest (f + LOG_CHUNK cfg) s' st'
      else Some (Inr s, st)) = Some y"
  show "prefix (fetched st) (fetched (snd y))"
  proof (cases "f \<le> latest")
    case False
    with body show ?thesis by auto
  next
    case True
    obtain r st1 where c: "scan_chunk p cfg w f (chunk_end cfg f latest) s st = (r, st1)"
      by fastforce
    with scan_chunk_prefix[of st p cfg w f "chunk_end cfg f latest" s]
    have s1: "prefix (fetched st) (fetched st1)"
      by simp
    show ?thesis
    proof (cases r)
      case (Inl e)
      with body True c s1 show ?thesis by auto
    next
      case (Inr s')
      with body True c have "loop p cfg w latest (f + LOG_CHUNK cfg) s' st1 = Some y"
        by simp
      from IH[OF this] s1 show ?thesis by (rule prefix_order.trans[rotated])
    qed
  qed
qed

lemma after_chunks_loop:
  "after_chunks p cfg w latest n f s st = Some (f', s', st') \<Longrightarrow>
     scan_loop p cfg w latest f s st = scan_loop p cfg w latest f' s' st'"
proof (induction n arbitrary: f s st)
  case 0
  then show ?case by simp
next
  case (Suc n)
  from Suc.prems have le: "f \<le> latest" by (auto split: if_splits)
  obtain r st1 where c: "scan_chunk p cfg w f (chunk_end cfg f latest) s st = (r, st1)"
    by fastforce
  with Suc.prems le obtain s1 where r: "r = Inr s1"
    and rest: "after_chunks p cfg w latest n (f + LOG_CHUNK cfg) s1 st1 = Some (f', s', st')"
    by (cases r) auto
  have "scan_loop p cfg w latest f s st = scan_loop p cfg w latest (f + LOG_CHUNK cfg) s1 st1"
    using le c r by (subst scan_loop.simps) simp
  with Suc.IH[OF rest] show ?case by simp
qed

lemma chunk_error_stops_loop:
  assumes "after_chunks p cfg w latest n f s st = Some (f', s', st')"
    and "f' \<le> latest"
    and "scan_chunk p cfg w f' (chunk_end cfg f' latest) s' st' = (Inl e, st'')"
  shows "scan_loop p cfg w latest f s st = Some (Inl e, st'')"
proof -
  have "scan_loop p cfg w latest f' s' st' = Some (Inl e, st'')"
    using assms(2,3) by (subst scan_loop.simps) simp
  with after_chunks_loop[OF assms(1)] show ?thesis by simp
qed

lemma after_chunks_start:
  "after_chunks p cfg w latest n f s st = Some (f', s', st') \<Longrightarrow> f' \<le> latest \<Longrightarrow> f \<le> latest"
  by (cases n) (auto split: if_splits)

lemma refresh_fails_unchanged:
  assumes a: "updateOwnedTokensForWallet p cfg wallet st = Some (Inl e, st')"
  shows "ownedCache st' = ownedCache st \<and> wallet_owned_json st' = wallet_owned_json st"
proof -
  obtain r st1 where h: "getLatestBlockNumber p cfg st = (r, st1)" by fastforce
  with getLatestBlockNumber_store[of p cfg st]
  have s1: "ownedCache st1 = ownedCache st \<and> wallet_owned_json st1 = wallet_owned_json st" by simp
  show ?thesis
    using a h s1 
    by (auto simp: updateOwnedTokensForWallet_def Let_def split: if_splits sum.splits option.splits prod.splits dest!: scan_loop_store)
qed

lemma head_error_propagates:
  assumes "BETTA_CONTRACT cfg \<noteq> []" "isHexAddress (toLowerCase (trim wallet))"
    and "getLatestBlockNumber p cfg st = (Inl e, st1)"
  shows "updateOwnedTokensForWallet p cfg wallet st = Some (Inl e, st1)"
  using assms by (simp add: updateOwnedTokensForWallet_def Let_def)

lemma chunk_error_propagates:
  assumes "BETTA_CONTRACT cfg \<noteq> []" "isHexAddress (toLowerCase (trim wallet))"
    and "getLatestBlockNumber p cfg st = (Inr latest, st1)"
    and "after_chunks p cfg (toLowerCase (trim wallet)) latest n
           (start_block cfg (cached_entry st (toLowerCase (trim wallet))))
           (new_Set (tokenIds (cached_entry st (toLowerCase (trim wallet))))) st1 = Some (f, s, st2)"
    and "f \<le> latest"
    and "scan_chunk p cfg (toLowerCase (trim wallet)) f (chunk_end cfg f latest) s st2 = (Inl e, st3)"
  shows "updateOwnedTokensForWallet p cfg wallet st = Some (Inl e, st3)"
proof -
  from after_chunks_start[OF assms(4,5)]
  have "\<not> start_block cfg (cached_entry st (toLowerCase (trim wallet))) > latest" by simp
  moreover from chunk_error_stops_loop[OF assms(4,5,6)]
  have "scan_loop p cfg (toLowerCase (trim wallet)) latest
          (start_block cfg (cached_entry st (toLowerCase (trim wallet))))
          (new_Set (tokenIds (cached_entry st (toLowerCase (trim wallet))))) st1 = Some (Inl e, st3)" .
  ultimately show ?thesis
    using assms(1,2,3) by (simp add: updateOwnedTokensForWallet_def Let_def)
qed

lemma incoming_fetch_error:
  assumes "getTransferLogs p cfg a b None (Some w) st = (Inl e, st1)"
  shows "scan_chunk p cfg w a b s st = (Inl e, st1)"
  using assms by (simp add: scan_chunk_def)

lemma outgoing_fetch_error:
  assumes "getTransferLogs p cfg a b None (Some w) st = (Inr r1, st1)"
    and "iterate r1 = Inr logsTo"
    and "getTransferLogs p cfg a b (Some w) None st1 = (Inl e, st2)"
  shows "scan_chunk p cfg w a b s st = (Inl e, st2)"
  using assms by (simp add: scan_chunk_def)

text \<open>
  Claim C2. A refresh that throws leaves the in-memory cache and the file as they were.
  With a configured contract and a well-formed wallet, an error thrown by the chain-head
  query is the error of the refresh. So is an error thrown by a log fetch of any chunk, the
  chunk reached after \<open>n\<close> chunks that completed: by the fetch of the transfers to the wallet,
  or, once that one has returned a list, by the fetch of the transfers from the wallet. In
  each case the refresh throws that error, so by the first part nothing is persisted.
\<close>

theorem failed_refresh_persists_nothing:
  "(\<forall>e st'. updateOwnedTokensForWallet p cfg wallet st = Some (Inl e, st') \<longrightarrow>
      ownedCache st' = ownedCache st \<and> wallet_owned_json st' = wallet_owned_json st)
   \<and> (BETTA_CONTRACT cfg \<noteq> [] \<and> isHexAddress (toLowerCase (trim wallet)) \<longrightarrow>
        (\<forall>e st1. getLatestBlockNumber p cfg st = (Inl e, st1) \<longrightarrow>
           updateOwnedTokensForWallet p cfg wallet st = Some (Inl e, st1))
      \<and> (\<forall>latest st1 n f s st2.
           getLatestBlockNumber p cfg st = (Inr latest, st1) \<and>
           after_chunks p cfg (toLowerCase (trim wallet)) latest n
             (start_block cfg (cached_entry st (toLowerCase (trim wallet))))
             (new_Set (tokenIds (cached_entry st (toLowerCase (trim wallet))))) st1 = Some (f, s, st2) \<and>
           f \<le> latest \<longrightarrow>
           (\<forall>e st3.
              getTransferLogs p cfg f (chunk_end cfg f latest) None (Some (toLowerCase (trim wallet))) st2 =
                (Inl e, st3) \<longrightarrow>
              updateOwnedTokensForWallet p cfg wallet st = Some (Inl e, st3))
         \<and> (\<forall>r1 st3 logsTo e st4.
              getTransferLogs p cfg f (chunk_end cfg f latest) None (Some (toLowerCase (trim wallet))) st2 =
                (Inr r1, st3) \<and>
              iterate r1 = Inr logsTo \<and>
              getTransferLogs p cfg f (chunk_end cfg f latest) (Some (toLowerCase (trim wallet))) None st3 =
                (Inl e, st4) \<longrightarrow>
              updateOwnedTokensForWallet p cfg wallet st = Some (Inl e, st4))))"
proof (rule conjI)
  show "\<forall>e st'. updateOwnedTokensForWallet p cfg wallet st = Some (Inl e, st') \<longrightarrow>
      ownedCache st' = ownedCache st \<and> wallet_owned_json st' = wallet_owned_json st"
    using refresh_fails_unchanged by blast
next
  let ?w = "toLowerCase (trim wallet)"
  show "BETTA_CONTRACT cfg \<noteq> [] \<and> isHexAddress ?w \<longrightarrow>
        (\<forall>e st1. getLatestBlockNumber p cfg st = (Inl e, st1) \<longrightarrow>
           updateOwnedTokensForWallet p cfg wallet st = Some (Inl e, st1))
      \<and> (\<forall>latest st1 n f s st2.
           getLatestBlockNumber p cfg st = (Inr latest, st1) \<and>
           after_chunks p cfg ?w latest n
             (start_block cfg (cached_entry st ?w))
             (new_Set (tokenIds (cached_entry st ?w))) st1 = Some (f, s, st2) \<and>
           f \<le> latest \<longrightarrow>
           (\<forall>e st3.
              getTransferLogs p cfg f (chunk_end cfg f latest) None (Some ?w) st2 = (Inl e, st3) \<longrightarrow>
              updateOwnedTokensForWallet p cfg wallet st = Some (Inl e, st3))
         \<and> (\<forall>r1 st3 logsTo e st4.
              getTransferLogs p cfg f (chunk_end cfg f latest) None (Some ?w) st2 = (Inr r1, st3) \<and>
              iterate r1 = Inr logsTo \<and>
              getTransferLogs p cfg f (chunk_end cfg f latest) (Some ?w) None st3 = (Inl e, st4) \<longrightarrow>
              updateOwnedTokensForWallet p cfg wallet st = Some (Inl e, st4)))"
  proof (rule impI, elim conjE, rule conjI)
    assume v: "BETTA_CONTRACT cfg \<noteq> []" "isHexAddress ?w"
    show "\<forall>e st1. getLatestBlockNumber p cfg st = (Inl e, st1) \<longrightarrow>
           updateOwnedTokensForWallet p cfg wallet st = Some (Inl e, st1)"
      using head_error_propagates[OF v] by blast
    show "\<forall>latest st1 n f s st2.
           getLatestBlockNumber p cfg st = (Inr latest, st1) \<and>
           after_chunks p cfg ?w latest n
             (start_block cfg (cached_entry st ?w))
             (new_Set (tokenIds (cached_entry st ?w))) st1 = Some (f, s, st2) \<and>
           f \<le> latest \<longrightarrow>
           (\<forall>e st3.
              getTransferLogs p cfg f (chunk_end cfg f latest) None (Some ?w) st2 = (Inl e, st3) \<longrightarrow>
              updateOwnedTokensForWallet p cfg wallet st = Some (Inl e, st3))
         \<and> (\<forall>r1 st3 logsTo e st4.
              getTransferLogs p cfg f (chunk_end cfg f latest) None (Some ?w) st2 = (Inr r1, st3) \<and>
              iterate r1 = Inr logsTo \<and>
              getTransferLogs p cfg f (chunk_end cfg f latest) (Some ?w) None st3 = (Inl e, st4) \<longrightarrow>
              updateOwnedTokensForWallet p cfg wallet st = Some (Inl e, st4))"
    proof (intro allI impI, elim conjE, rule conjI)
      fix latest st1 n f s st2
      assume head: "getLatestBlockNumber p cfg st = (Inr latest, st1)"
        and reach: "after_chunks p cfg ?w latest n
             (start_block cfg (cached_entry st ?w))
             (new_Set (tokenIds (cached_entry st ?w))) st1 = Some (f, s, st2)"
        and le: "f \<le> latest"
      note propagates = chunk_error_propagates[OF v head reach le]
      show "\<forall>e st3.
              getTransferLogs p cfg f (chunk_end cfg f latest) None (Some ?w) st2 = (Inl e, st3) \<longrightarrow>
              updateOwnedTokensForWallet p cfg wallet st = Some (Inl e, st3)"
      proof (intro allI impI)
        fix e st3
        assume "getTransferLogs p cfg f (chunk_end cfg f latest) None (Some ?w) st2 = (Inl e, st3)"
        then have "scan_chunk p cfg ?w f (chunk_end cfg f latest) s st2 = (Inl e, st3)"
          by (rule incoming_fetch_error)
        then show "updateOwnedTokensForWallet p cfg wallet st = Some (Inl e, st3)"
          by (rule propagates)
      qed
      show "\<forall>r1 st3 logsTo e st4.
              getTransferLogs p cfg f (chunk_end cfg f latest) None (Some ?w) st2 = (Inr r1, st3) \<and>
              iterate r1 = Inr logsTo \<and>
              getTransferLogs p cfg f (chunk_end cfg f latest) (Some ?w) None st3 = (Inl e, st4) \<longrightarrow>
              updateOwnedTokensForWallet p cfg wallet st = Some (Inl e, st4)"
      proof (intro allI impI, elim conjE)
        fix r1 st3 logsTo e st4
        assume "getTransferLogs p cfg f (chunk_end cfg f latest) None (Some ?w) st2 = (Inr r1, st3)"
          and "iterate r1 = Inr logsTo"
          and "getTransferLogs p cfg f (chunk_end cfg f latest) (Some ?w) None st3 = (Inl e, st4)"
        then have "scan_chunk p cfg ?w f (chunk_end cfg f latest) s st2 = (Inl e, st4)"
          by (rule outgoing_fetch_error)
        then show "updateOwnedTokensForWallet p cfg wallet st = Some (Inl e, st4)"
          by (rule propagates)
      qed
    qed
  qed
qed


lemmas rpc_eval = rpc_def pickRpcUrlsRoundRobin_def attempt_def fetchFn_def response_result_def
  error_text_def shouldFailover_def toLowerCase_def toLowerCase_char_def
  toString_radix_def toString_digits.simps digit_char_def

lemma small_chunks_fields:
  "RPC_URLS small_chunks = [''https://a.example'', ''https://b.example'']"
  "BETTA_CONTRACT small_chunks = ''0x00000000000000000000000000000000000000c0''"
  "START_BLOCK small_chunks = 1"
  "LOG_CHUNK small_chunks = 2"
  by (simp_all add: small_chunks_def two_endpoints_def)

lemma alice_norm: "toLowerCase (trim alice) = alice"
  by (simp add: alice_def trim_def isWhiteSpace_def toLowerCase_def toLowerCase_char_def)

lemma alice_hex: "isHexAddress alice"
  by (simp add: alice_def isHexAddress_def trim_def isWhiteSpace_def isHexDigit_def)

lemmas rpc_run = rpc_def pickRpcUrlsRoundRobin_def attempt_def fetchFn_def response_result_def

lemmas refresh_run = updateOwnedTokensForWallet_def getLatestBlockNumber_def rpc_run
  scan_chunk_def getTransferLogs_def iterate_def BigInt_def cached_entry_def start_block_def
  new_Set_def chunk_end_def store_checkpoint_def writeJsonAtomic_def Let_def

lemma small_hex:
  "StringToBigInt ''0xa'' = Some 10"
  "StringToBigInt ''0x5'' = Some 5"
  "StringToBigInt ''0x3'' = Some 3"
  by code_simp+

lemma stale_entry:
  "cached_entry stale_state alice = \<lparr>lastScannedBlock = Some 0, tokenIds = [7]\<rparr>"
  by (simp add: cached_entry_def stale_state_def)

lemma stale_start:
  "start_block small_chunks (cached_entry stale_state alice) = 1"
  "new_Set (tokenIds (cached_entry stale_state alice)) = [7]"
  by (simp_all add: stale_entry start_block_def small_chunks_fields new_Set_def set_add_def)

lemma stale_head_503:
  "fst (getLatestBlockNumber always_503 small_chunks stale_state) =
     Inl (Error ''RPC HTTP 503: Service Unavailable'')"
  by (simp add: getLatestBlockNumber_def rpc_eval always_503_def small_chunks_fields stale_state_def
      split: prod.splits)

lemma stale_head_later:
  "fst (getLatestBlockNumber unauthorized_later small_chunks stale_state) = Inr 3"
  "length (fetched (snd (getLatestBlockNumber unauthorized_later small_chunks stale_state))) = 1"
  by (simp_all add: getLatestBlockNumber_def rpc_run unauthorized_later_def small_chunks_fields
      stale_state_def BigInt_def small_hex split: prod.splits)

lemma stale_head_early:
  "fst (getLatestBlockNumber unauthorized_early small_chunks stale_state) = Inr 3"
  "length (fetched (snd (getLatestBlockNumber unauthorized_early small_chunks stale_state))) = 1"
  by (simp_all add: getLatestBlockNumber_def rpc_run unauthorized_early_def small_chunks_fields
      stale_state_def BigInt_def small_hex split: prod.splits)

lemma later_first_chunk:
  assumes "length (fetched st) = 1"
  shows "fst (scan_chunk unauthorized_later small_chunks alice 1 2 s st) = Inr s"
    and "length (fetched (snd (scan_chunk unauthorized_later small_chunks alice 1 2 s st))) = 3"
  using assms
  by (simp_all add: scan_chunk_def getTransferLogs_def rpc_run unauthorized_later_def
      small_chunks_fields iterate_def Let_def split: prod.splits)

lemma later_second_chunk_incoming:
  assumes "length (fetched st) = 3"
  shows "fst (getTransferLogs unauthorized_later small_chunks 3 3 None (Some alice) st) =
     Inl (Error ''RPC HTTP 401: Unauthorized'')"
  using assms
  by (simp add: getTransferLogs_def rpc_eval unauthorized_later_def small_chunks_fields
      split: prod.splits)

lemma early_first_chunk_incoming:
  assumes "length (fetched st) = 1"
  shows "fst (getTransferLogs unauthorized_early small_chunks 1 2 None (Some alice) st) = Inr (RLogs [])"
    and "length (fetched (snd (getTransferLogs unauthorized_early small_chunks 1 2 None (Some alice) st))) = 2"
  using assms
  by (simp_all add: getTransferLogs_def rpc_run unauthorized_early_def small_chunks_fields
      split: prod.splits)

lemma early_first_chunk_outgoing:
  assumes "length (fetched st) = 2"
  shows "fst (getTransferLogs unauthorized_early small_chunks 1 2 (Some alice) None st) =
     Inl (Error ''RPC HTTP 401: Unauthorized'')"
  using assms
  by (simp add: getTransferLogs_def rpc_eval unauthorized_early_def small_chunks_fields
      split: prod.splits)

theorem failed_refresh_persists_nothing_witness:
  "(\<exists>st'. updateOwnedTokensForWallet always_503 small_chunks alice stale_state =
        Some (Inl (Error ''RPC HTTP 503: Service Unavailable''), st')
      \<and> ownedCache st' = ownedCache stale_state
      \<and> wallet_owned_json st' = wallet_owned_json stale_state)
   \<and> (\<exists>st'. updateOwnedTokensForWallet unauthorized_later small_chunks alice stale_state =
        Some (Inl (Error ''RPC HTTP 401: Unauthorized''), st')
      \<and> ownedCache st' = ownedCache stale_state
      \<and> wallet_owned_json st' = wallet_owned_json stale_state)
   \<and> (\<exists>st'. updateOwnedTokensForWallet unauthorized_early small_chunks alice stale_state =
        Some (Inl (Error ''RPC HTTP 401: Unauthorized''), st')
      \<and> ownedCache st' = ownedCache stale_state
      \<and> wallet_owned_json st' = wallet_owned_json stale_state)
   \<and> ownedCache stale_state alice = Some \<lparr>lastScannedBlock = Some 0, tokenIds = [7]\<rparr>"
proof (intro conjI)
  let ?cfg = small_chunks
  have valid: "BETTA_CONTRACT ?cfg \<noteq> [] \<and> isHexAddress (toLowerCase (trim alice))"
    by (simp add: alice_norm alice_hex small_chunks_fields)
  show "ownedCache stale_state alice = Some \<lparr>lastScannedBlock = Some 0, tokenIds = [7]\<rparr>"
    by (simp add: stale_state_def)
  show "\<exists>st'. updateOwnedTokensForWallet always_503 ?cfg alice stale_state =
        Some (Inl (Error ''RPC HTTP 503: Service Unavailable''), st')
      \<and> ownedCache st' = ownedCache stale_state
      \<and> wallet_owned_json st' = wallet_owned_json stale_state"
  proof -
    let ?p = always_503
    define st1 where "st1 = snd (getLatestBlockNumber ?p ?cfg stale_state)"
    have head: "getLatestBlockNumber ?p ?cfg stale_state =
        (Inl (Error ''RPC HTTP 503: Service Unavailable''), st1)"
      using stale_head_503 by (simp add: st1_def prod_eq_iff)
    note inst = failed_refresh_persists_nothing[of ?p ?cfg alice stale_state]
    from inst valid head
    have res: "updateOwnedTokensForWallet ?p ?cfg alice stale_state =
        Some (Inl (Error ''RPC HTTP 503: Service Unavailable''), st1)"
      by blast
    with inst have "ownedCache st1 = ownedCache stale_state
        \<and> wallet_owned_json st1 = wallet_owned_json stale_state"
      by blast
    with res show ?thesis by blast
  qed
  show "\<exists>st'. updateOwnedTokensForWallet unauthorized_later ?cfg alice stale_state =
        Some (Inl (Error ''RPC HTTP 401: Unauthorized''), st')
      \<and> ownedCache st' = ownedCache stale_state
      \<and> wallet_owned_json st' = wallet_owned_json stale_state"
  proof -
    let ?p = unauthorized_later
    define st1 where "st1 = snd (getLatestBlockNumber ?p ?cfg stale_state)"
    define st2 where "st2 = snd (scan_chunk ?p ?cfg alice 1 2 [7] st1)"
    define st3 where "st3 = snd (getTransferLogs ?p ?cfg 3 3 None (Some alice) st2)"
    have head: "getLatestBlockNumber ?p ?cfg stale_state = (Inr 3, st1)"
      using stale_head_later(1) by (simp add: st1_def prod_eq_iff)
    have len1: "length (fetched st1) = 1"
      by (simp add: st1_def stale_head_later(2))
    have c1: "scan_chunk ?p ?cfg alice 1 2 [7] st1 = (Inr [7], st2)"
      using later_first_chunk(1)[OF len1] by (simp add: st2_def prod_eq_iff)
    have len2: "length (fetched st2) = 3"
      using later_first_chunk(2)[OF len1] by (simp add: st2_def)
    have reach: "after_chunks ?p ?cfg (toLowerCase (trim alice)) 3 (Suc 0)
        (start_block ?cfg (cached_entry stale_state (toLowerCase (trim alice))))
        (new_Set (tokenIds (cached_entry stale_state (toLowerCase (trim alice))))) st1 =
          Some (3, [7], st2)"
      using c1 by (simp add: alice_norm stale_start chunk_end_def small_chunks_fields)
    have fails: "getTransferLogs ?p ?cfg 3 (chunk_end ?cfg 3 3) None (Some (toLowerCase (trim alice))) st2 =
        (Inl (Error ''RPC HTTP 401: Unauthorized''), st3)"
      using later_second_chunk_incoming[OF len2]
      by (simp add: st3_def prod_eq_iff alice_norm chunk_end_def small_chunks_fields)
    note inst = failed_refresh_persists_nothing[of ?p ?cfg alice stale_state]
    from inst valid head reach fails
    have res: "updateOwnedTokensForWallet ?p ?cfg alice stale_state =
        Some (Inl (Error ''RPC HTTP 401: Unauthorized''), st3)"
      by (metis order_refl)
    with inst have "ownedCache st3 = ownedCache stale_state
        \<and> wallet_owned_json st3 = wallet_owned_json stale_state"
      by blast
    with res show ?thesis by blast
  qed
  show "\<exists>st'. updateOwnedTokensForWallet unauthorized_early ?cfg alice stale_state =
        Some (Inl (Error ''RPC HTTP 401: Unauthorized''), st')
      \<and> ownedCache st' = ownedCache stale_state
      \<and> wallet_owned_json st' = wallet_owned_json stale_state"
  proof -
    let ?p = unauthorized_early
    define st1 where "st1 = snd (getLatestBlockNumber ?p ?cfg stale_state)"
    define st2 where "st2 = snd (getTransferLogs ?p ?cfg 1 2 None (Some alice) st1)"
    define st3 where "st3 = snd (getTransferLogs ?p ?cfg 1 2 (Some alice) None st2)"
    have head: "getLatestBlockNumber ?p ?cfg stale_state = (Inr 3, st1)"
      using stale_head_early(1) by (simp add: st1_def prod_eq_iff)
    have len1: "length (fetched st1) = 1"
      by (simp add: st1_def stale_head_early(2))
    have reach: "after_chunks ?p ?cfg (toLowerCase (trim alice)) 3 0
        (start_block ?cfg (cached_entry stale_state (toLowerCase (trim alice))))
        (new_Set (tokenIds (cached_entry stale_state (toLowerCase (trim alice))))) st1 =
          Some (1, [7], st1)"
      by (simp add: alice_norm stale_start)
    have incoming_ok: "getTransferLogs ?p ?cfg 1 (chunk_end ?cfg 1 3) None (Some (toLowerCase (trim alice))) st1 =
        (Inr (RLogs []), st2)"
      using early_first_chunk_incoming(1)[OF len1]
      by (simp add: st2_def prod_eq_iff alice_norm chunk_end_def small_chunks_fields)
    have len2: "length (fetched st2) = 2"
      using early_first_chunk_incoming(2)[OF len1] by (simp add: st2_def)
    have it: "iterate (RLogs []) = Inr []"
      by (simp add: iterate_def)
    have fails: "getTransferLogs ?p ?cfg 1 (chunk_end ?cfg 1 3) (Some (toLowerCase (trim alice))) None st2 =
        (Inl (Error ''RPC HTTP 401: Unauthorized''), st3)"
      using early_first_chunk_outgoing[OF len2]
      by (simp add: st3_def prod_eq_iff alice_norm chunk_end_def small_chunks_fields)
    note inst = failed_refresh_persists_nothing[of ?p ?cfg alice stale_state]
    have le: "(1::int) \<le> 3" by simp
    from inst valid head reach incoming_ok it fails le
    have res: "updateOwnedTokensForWallet ?p ?cfg alice stale_state =
        Some (Inl (Error ''RPC HTTP 401: Unauthorized''), st3)"
      by metis
    with inst have "ownedCache st3 = ownedCache stale_state
        \<and> wallet_owned_json st3 = wallet_owned_json stale_state"
      by blast
    with res show ?thesis by blast
  qed
qed

section \<open>Nothing new to scan\<close>

lemma set_set_add [simp]: "set (set_add x s) = insert x (set s)"
  by (auto simp: set_add_def)

lemma set_set_delete [simp]: "set (set_delete x s) = set s - {x}"
  by (auto simp: set_delete_def)

lemma distinct_set_add [simp]: "distinct (set_add x s) = distinct s"
  by (auto simp: set_add_def)

lemma distinct_set_delete [simp]: "distinct s \<Longrightarrow> distinct (set_delete x s)"
  by (auto simp: set_delete_def distinct_removeAll)

lemma foldl_set_add:
  "set (foldl (\<lambda>s x. set_add x s) acc xs) = set acc \<union> set xs
   \<and> (distinct acc \<longrightarrow> distinct (foldl (\<lambda>s x. set_add x s) acc xs))"
  by (induction xs arbitrary: acc) auto

lemma set_new_Set [simp]: "set (new_Set xs) = set xs"
  using foldl_set_add[of "[]" xs] by (simp add: new_Set_def)

lemma distinct_new_Set [simp]: "distinct (new_Set xs)"
  using foldl_set_add[of "[]" xs] by (simp add: new_Set_def)

lemma foldl_set_add_distinct:
  "distinct (acc @ xs) \<Longrightarrow> foldl (\<lambda>s x. set_add x s) acc xs = acc @ xs"
  by (induction xs arbitrary: acc) (auto simp: set_add_def)

lemma new_Set_distinct: "distinct xs \<Longrightarrow> new_Set xs = xs"
  using foldl_set_add_distinct[of "[]" xs] by (simp add: new_Set_def)

lemma set_sortTokenIds [simp]: "set (sortTokenIds s) = set s"
  by (simp add: sortTokenIds_def)

lemma distinct_sortTokenIds [simp]: "distinct (sortTokenIds s) = distinct s"
  by (simp add: sortTokenIds_def)

lemma sortTokenIds_idem: "sortTokenIds (sortTokenIds s) = sortTokenIds s"
  by (simp add: sortTokenIds_def sort_key_id_if_sorted)

lemma start_block_max:
  "start_block cfg entry =
     (case lastScannedBlock entry of
        None \<Rightarrow> START_BLOCK cfg
      | Some prev \<Rightarrow> max (START_BLOCK cfg) (prev + 1))"
  by (auto simp: start_block_def split: option.splits)

lemma getLatestBlockNumber_requests:
  "\<forall>x \<in> set (drop (length (fetched st)) (fetched (snd (getLatestBlockNumber p cfg st)))).
     snd (snd x) = Eth_blockNumber"
  unfolding getLatestBlockNumber_fetched by (rule rpc_fetched_requests)

lemma fetched_store_checkpoint [simp]: "fetched (store_checkpoint w cp st) = fetched st"
  by (simp add: store_checkpoint_def writeJsonAtomic_def)

lemma ownedCache_store_checkpoint [simp]:
  "ownedCache (store_checkpoint w cp st) = (ownedCache st)(w \<mapsto> cp)"
  by (simp add: store_checkpoint_def writeJsonAtomic_def)

lemma file_store_checkpoint [simp]:
  "wallet_owned_json (store_checkpoint w cp st) = (ownedCache st)(w \<mapsto> cp)"
  by (simp add: store_checkpoint_def writeJsonAtomic_def)

lemma nothing_new:
  assumes "BETTA_CONTRACT cfg \<noteq> []" "isHexAddress (toLowerCase (trim wallet))"
    and head: "getLatestBlockNumber p cfg st = (Inr latest, st1)"
    and gt: "start_block cfg (cached_entry st (toLowerCase (trim wallet))) > latest"
  shows "updateOwnedTokensForWallet p cfg wallet st =
      Some (Inr \<lparr>lastScannedBlock = Some latest,
                 tokenIds = sortTokenIds (new_Set (tokenIds (cached_entry st (toLowerCase (trim wallet)))))\<rparr>,
            store_checkpoint (toLowerCase (trim wallet))
              \<lparr>lastScannedBlock = Some latest,
                tokenIds = sortTokenIds (new_Set (tokenIds (cached_entry st (toLowerCase (trim wallet)))))\<rparr> st1)"
  using assms by (simp add: updateOwnedTokensForWallet_def Let_def)

text \<open>
  Claim C3. The start block is the configured genesis for a wallet never scanned and
  \<open>max genesis (prev + 1)\<close> otherwise. When it exceeds the chain head that the refresh
  observed, the refresh returns a checkpoint with \<open>lastScannedBlock\<close> set to that head and
  the same set of token ids, stores it in the cache and in the file, and every fetch it
  made was an \<open>eth_blockNumber\<close> request: no log query is issued.
\<close>

theorem nothing_new_to_scan:
  "start_block cfg entry =
     (case lastScannedBlock entry of
        None \<Rightarrow> START_BLOCK cfg
      | Some prev \<Rightarrow> max (START_BLOCK cfg) (prev + 1))
   \<and> (BETTA_CONTRACT cfg \<noteq> [] \<and> isHexAddress (toLowerCase (trim wallet)) \<and>
       getLatestBlockNumber p cfg st = (Inr latest, st1) \<and>
       start_block cfg (cached_entry st (toLowerCase (trim wallet))) > latest \<longrightarrow>
       (\<exists>cp st'.
          updateOwnedTokensForWallet p cfg wallet st = Some (Inr cp, st') \<and>
          lastScannedBlock cp = Some latest \<and>
          set (tokenIds cp) = set (tokenIds (cached_entry st (toLowerCase (trim wallet)))) \<and>
          ownedCache st' = (ownedCache st)(toLowerCase (trim wallet) \<mapsto> cp) \<and>
          wallet_owned_json st' = (ownedCache st)(toLowerCase (trim wallet) \<mapsto> cp) \<and>
          (\<forall>x \<in> set (drop (length (fetched st)) (fetched st')). snd (snd x) = Eth_blockNumber)))"
proof (rule conjI)
  show "start_block cfg entry =
     (case lastScannedBlock entry of
        None \<Rightarrow> START_BLOCK cfg
      | Some prev \<Rightarrow> max (START_BLOCK cfg) (prev + 1))"
    by (rule start_block_max)
next
  let ?w = "toLowerCase (trim wallet)"
  let ?cp = "\<lparr>lastScannedBlock = Some latest,
                 tokenIds = sortTokenIds (new_Set (tokenIds (cached_entry st ?w)))\<rparr>"
  show "BETTA_CONTRACT cfg \<noteq> [] \<and> isHexAddress ?w \<and>
       getLatestBlockNumber p cfg st = (Inr latest, st1) \<and>
       start_block cfg (cached_entry st ?w) > latest \<longrightarrow>
       (\<exists>cp st'.
          updateOwnedTokensForWallet p cfg wallet st = Some (Inr cp, st') \<and>
          lastScannedBlock cp = Some latest \<and>
          set (tokenIds cp) = set (tokenIds (cached_entry st ?w)) \<and>
          ownedCache st' = (ownedCache st)(?w \<mapsto> cp) \<and>
          wallet_owned_json st' = (ownedCache st)(?w \<mapsto> cp) \<and>
          (\<forall>x \<in> set (drop (length (fetched st)) (fetched st')). snd (snd x) = Eth_blockNumber))"
  proof (rule impI, elim conjE)
    assume v: "BETTA_CONTRACT cfg \<noteq> []" "isHexAddress ?w"
      and head: "getLatestBlockNumber p cfg st = (Inr latest, st1)"
      and gt: "start_block cfg (cached_entry st ?w) > latest"
    have r: "updateOwnedTokensForWallet p cfg wallet st = Some (Inr ?cp, store_checkpoint ?w ?cp st1)"
      using v head gt by (rule nothing_new)
    have c: "ownedCache st1 = ownedCache st"
      using getLatestBlockNumber_store[of p cfg st] head by simp
    have f: "\<forall>x \<in> set (drop (length (fetched st)) (fetched st1)). snd (snd x) = Eth_blockNumber"
      using getLatestBlockNumber_requests[of st p cfg] head by simp
    show "\<exists>cp st'.
          updateOwnedTokensForWallet p cfg wallet st = Some (Inr cp, st') \<and>
          lastScannedBlock cp = Some latest \<and>
          set (tokenIds cp) = set (tokenIds (cached_entry st ?w)) \<and>
          ownedCache st' = (ownedCache st)(?w \<mapsto> cp) \<and>
          wallet_owned_json st' = (ownedCache st)(?w \<mapsto> cp) \<and>
          (\<forall>x \<in> set (drop (length (fetched st)) (fetched st')). snd (snd x) = Eth_blockNumber)"
      by (rule exI[of _ ?cp], rule exI[of _ "store_checkpoint ?w ?cp st1"]) (simp add: r c f)
  qed
qed

lemma scanned_head:
  "fst (getLatestBlockNumber unauthorized_later small_chunks scanned_state) = Inr 3"
  by (simp add: getLatestBlockNumber_def rpc_eval unauthorized_later_def small_chunks_fields
      scanned_state_def BigInt_def StringToBigInt_def trim_def isWhiteSpace_def parse_number_def
      digit_value_def split: prod.splits)

lemma scanned_head_fetched:
  "fetched (snd (getLatestBlockNumber unauthorized_later small_chunks scanned_state)) =
     [(''https://a.example'', 0, Eth_blockNumber)]"
  by (simp add: getLatestBlockNumber_def rpc_eval unauthorized_later_def small_chunks_fields
      scanned_state_def BigInt_def StringToBigInt_def trim_def isWhiteSpace_def parse_number_def
      digit_value_def split: prod.splits)

lemma scanned_entry:
  "cached_entry scanned_state alice = \<lparr>lastScannedBlock = Some 3, tokenIds = [7, 5]\<rparr>"
  by (simp add: cached_entry_def scanned_state_def)

theorem nothing_new_to_scan_witness:
  "(\<exists>cp. fst (the (updateOwnedTokensForWallet unauthorized_later small_chunks alice scanned_state)) = Inr cp
       \<and> lastScannedBlock cp = Some 3 \<and> set (tokenIds cp) = {5, 7})
   \<and> start_block small_chunks (cached_entry scanned_state alice) = 4
   \<and> fetched (snd (the (updateOwnedTokensForWallet unauthorized_later small_chunks alice scanned_state))) =
       [(''https://a.example'', 0, Eth_blockNumber)]"
proof -
  let ?p = unauthorized_later and ?cfg = small_chunks
  define st1 where "st1 = snd (getLatestBlockNumber ?p ?cfg scanned_state)"
  have head: "getLatestBlockNumber ?p ?cfg scanned_state = (Inr 3, st1)"
    using scanned_head by (simp add: st1_def prod_eq_iff)
  have start: "start_block ?cfg (cached_entry scanned_state alice) = 4"
    by (simp add: start_block_def scanned_entry small_chunks_fields)
  have hyp: "BETTA_CONTRACT ?cfg \<noteq> [] \<and> isHexAddress (toLowerCase (trim alice)) \<and>
       getLatestBlockNumber ?p ?cfg scanned_state = (Inr 3, st1) \<and>
       start_block ?cfg (cached_entry scanned_state (toLowerCase (trim alice))) > 3"
    using head by (simp add: alice_norm alice_hex small_chunks_fields start)
  from nothing_new_to_scan[of ?cfg _ alice ?p scanned_state 3 st1] hyp
  obtain cp st' where r: "updateOwnedTokensForWallet ?p ?cfg alice scanned_state = Some (Inr cp, st')"
    and l: "lastScannedBlock cp = Some 3"
    and t: "set (tokenIds cp) = set (tokenIds (cached_entry scanned_state (toLowerCase (trim alice))))"
    by blast
  have f: "fetched (snd (the (updateOwnedTokensForWallet ?p ?cfg alice scanned_state))) =
       [(''https://a.example'', 0, Eth_blockNumber)]"
  proof -
    have f1: "fetched st1 = [(''https://a.example'', 0, Eth_blockNumber)]"
      unfolding st1_def by (rule scanned_head_fetched)
    from hyp have "\<exists>cp. updateOwnedTokensForWallet ?p ?cfg alice scanned_state =
        Some (Inr cp, store_checkpoint (toLowerCase (trim alice)) cp st1)"
      using nothing_new[of ?cfg alice ?p scanned_state 3 st1] by blast
    then show ?thesis using f1 by auto
  qed
  from r l t f start show ?thesis
    by (auto simp: alice_norm scanned_entry)
qed

section \<open>Normalised wallet addresses\<close>

lemma dropWhile_snoc_keep:
  "\<not> P x \<Longrightarrow> \<exists>ys. dropWhile P (zs @ [x]) = ys @ [x]"
  by (induction zs) auto

lemma dropWhile_trim [simp]: "dropWhile isWhiteSpace (trim s) = trim s"
proof (cases "dropWhile isWhiteSpace s")
  case Nil
  then show ?thesis by (simp only: trim_def rev.simps dropWhile.simps)
next
  case (Cons x u)
  then have nx: "\<not> isWhiteSpace x"
    by (metis hd_dropWhile list.discI list.sel(1))
  obtain ys where "dropWhile isWhiteSpace (rev u @ [x]) = ys @ [x]"
    using dropWhile_snoc_keep[of isWhiteSpace x "rev u"] nx by blast
  with Cons nx show ?thesis by (simp add: trim_def)
qed

lemma trim_idem [simp]: "trim (trim s) = trim s"
proof -
  have "dropWhile isWhiteSpace (rev (trim s)) = rev (trim s)"
    by (simp add: trim_def)
  then show ?thesis
    by (subst trim_def) simp
qed

lemma isWhiteSpace_toLowerCase_char [simp]:
  "isWhiteSpace (toLowerCase_char c) = isWhiteSpace c"
  by (auto simp: toLowerCase_char_def isWhiteSpace_def split: option.splits if_splits)

lemma toLowerCase_char_idem [simp]:
  "toLowerCase_char (toLowerCase_char c) = toLowerCase_char c"
  by (auto simp: toLowerCase_char_def split: option.splits if_splits)

lemma trim_toLowerCase: "trim (toLowerCase s) = toLowerCase (trim s)"
  by (simp add: trim_def toLowerCase_def dropWhile_map rev_map comp_def)

lemma normalise_idem [simp]:
  "toLowerCase (trim (toLowerCase (trim s))) = toLowerCase (trim s)"
  by (simp add: trim_toLowerCase) (simp add: toLowerCase_def)

lemma bob_norm: "toLowerCase (trim bob) = bob"
  by (simp add: bob_def trim_def isWhiteSpace_def toLowerCase_def toLowerCase_char_def)

lemma bob_hex: "isHexAddress bob"
  by (simp add: bob_def isHexAddress_def trim_def isWhiteSpace_def isHexDigit_def)

lemma query_for_wallet [simp]: "query_wallet (query_for w) = w"
  by (simp add: query_wallet_def query_for_def)

section \<open>The error classifier\<close>

lemma str_includes_sublist: "str_includes s sub \<longleftrightarrow> sublist sub s"
  by (induction s) (auto simp: sublist_Cons_right)

lemma shouldFailover_markers:
  "shouldFailover msg \<longleftrightarrow> (\<exists>k \<in> set failover_markers. sublist k (toLowerCase msg))"
  by (simp add: shouldFailover_def failover_markers_def str_includes_sublist Let_def)

lemma toLowerCase_Nil [simp]: "toLowerCase [] = []"
  by (simp add: toLowerCase_def)

lemma toLowerCase_Cons: "toLowerCase (c # cs) = toLowerCase_char c # toLowerCase cs"
  by (simp add: toLowerCase_def)

lemma toLowerCase_append [simp]: "toLowerCase (a @ b) = toLowerCase a @ toLowerCase b"
  by (simp add: toLowerCase_def)

lemma gateway_statuses_transient:
  assumes "status = 502 \<or> status = 503 \<or> status = 504"
  shows "transient (response_result (Response status text j))"
proof -
  have s503: "sublist ''http 503'' (''rpc '' @ ''http 503'' @ rest)" for rest :: string
    by (rule sublist_appendI)
  have s502: "sublist ''http 502'' (''rpc '' @ ''http 502'' @ rest)" for rest :: string
    by (rule sublist_appendI)
  have s504: "sublist ''http 504'' (''rpc '' @ ''http 504'' @ rest)" for rest :: string
    by (rule sublist_appendI)
  from assms show ?thesis
  proof (elim disjE)
    assume "status = 502"
    then show ?thesis
      using s502[of "'': '' @ toLowerCase (take 220 text)"]
      by (simp add: transient_def response_result_def error_text_def shouldFailover_def
          str_includes_sublist toString_radix_def toString_digits.simps digit_char_def
          toLowerCase_Cons toLowerCase_char_def Let_def)
  next
    assume "status = 503"
    then show ?thesis
      using s503[of "'': '' @ toLowerCase (take 220 text)"]
      by (simp add: transient_def response_result_def error_text_def shouldFailover_def
          str_includes_sublist toString_radix_def toString_digits.simps digit_char_def
          toLowerCase_Cons toLowerCase_char_def Let_def)
  next
    assume "status = 504"
    then show ?thesis
      using s504[of "'': '' @ toLowerCase (take 220 text)"]
      by (simp add: transient_def response_result_def error_text_def shouldFailover_def
          str_includes_sublist toString_radix_def toString_digits.simps digit_char_def
          toLowerCase_Cons toLowerCase_char_def Let_def)
  qed
qed

text \<open>
  Claim C6, as amended. \<open>shouldFailover\<close> accepts a message exactly when its lower-cased text
  contains one of the ten substrings of \<open>failover_markers\<close>; every response with status 502,
  503 or 504 is therefore transient whatever its body. Nothing else is looked at: the kind
  of the error plays no role.
\<close>

theorem shouldFailover_by_substring:
  "(shouldFailover msg \<longleftrightarrow> (\<exists>k \<in> set failover_markers. sublist k (toLowerCase msg)))
   \<and> (status = 502 \<or> status = 503 \<or> status = 504 \<longrightarrow>
        transient (response_result (Response status text j)))"
  using shouldFailover_markers gateway_statuses_transient by blast

text \<open>
  Claim C6 fails as stated. An HTTP 401 whose body reads "Unauthorized: generate an API key"
  carries none of the signals the claim lists, yet \<open>shouldFailover\<close> accepts it (the word
  "generate" contains "rate"), and \<open>rpc\<close> fails over: with two endpoints it makes all four
  attempts instead of aborting after the first.
\<close>

theorem auth_failure_fails_over:
  "response_result auth_failure = Inl (Error ''RPC HTTP 401: Unauthorized: generate an API key'')
   \<and> \<not> claimed_transient ''RPC HTTP 401: Unauthorized: generate an API key''
   \<and> shouldFailover ''RPC HTTP 401: Unauthorized: generate an API key''
   \<and> length (fetched (snd (rpc always_unauthorized two_endpoints Eth_blockNumber initial_state))) = 4"
  by (simp add: rpc_eval always_unauthorized_def auth_failure_def two_endpoints_def initial_state_def
      claimed_transient_def)

theorem shouldFailover_by_substring_witness:
  "shouldFailover ''RPC HTTP 429: Rate limit exceeded''
   \<and> \<not> shouldFailover ''RPC HTTP 429: Too Many Requests''
   \<and> transient (response_result (Response 503 ''no healthy upstream'' JFalsy))"
proof -
  have a: "(\<exists>k \<in> set failover_markers. sublist k (toLowerCase ''RPC HTTP 429: Rate limit exceeded''))"
    by (simp add: failover_markers_def toLowerCase_def toLowerCase_char_def
        str_includes_sublist[symmetric])
  have b: "\<not> (\<exists>k \<in> set failover_markers. sublist k (toLowerCase ''RPC HTTP 429: Too Many Requests''))"
    by (simp add: failover_markers_def toLowerCase_def toLowerCase_char_def
        str_includes_sublist[symmetric])
  have c: "(503::int) = 502 \<or> (503::int) = 503 \<or> (503::int) = 504" by simp
  note inst = shouldFailover_by_substring
  from inst[of "''RPC HTTP 429: Rate limit exceeded''"] a
  have 1: "shouldFailover ''RPC HTTP 429: Rate limit exceeded''" by blast
  from inst[of "''RPC HTTP 429: Too Many Requests''"] b
  have 2: "\<not> shouldFailover ''RPC HTTP 429: Too Many Requests''" by blast
  from inst[of _ 503 "''no healthy upstream''" JFalsy] c
  have 3: "transient (response_result (Response 503 ''no healthy upstream'' JFalsy))" by blast
  from 1 2 3 show ?thesis by simp
qed

section \<open>Block numbers on the wire\<close>

lemma parse_digits_append:
  "parse_digits r acc (xs @ ys) =
     (case parse_digits r acc xs of None \<Rightarrow> None | Some a \<Rightarrow> parse_digits r a ys)"
  by (induction xs arbitrary: acc) (auto split: option.splits)

lemma digit_value_digit_char:
  assumes "0 \<le> d" "d < 16"
  shows "digit_value (digit_char d) = Some d"
proof -
  from assms have "d = 0 \<or> d = 1 \<or> d = 2 \<or> d = 3 \<or> d = 4 \<or> d = 5 \<or> d = 6 \<or> d = 7
      \<or> d = 8 \<or> d = 9 \<or> d = 10 \<or> d = 11 \<or> d = 12 \<or> d = 13 \<or> d = 14 \<or> d = 15"
    by arith
  then show ?thesis
    by (elim disjE) (simp_all add: digit_value_def digit_char_def)
qed

lemma digit_char_not_space:
  assumes "0 \<le> d" "d < 16"
  shows "\<not> isWhiteSpace (digit_char d)"
proof -
  from assms have "d = 0 \<or> d = 1 \<or> d = 2 \<or> d = 3 \<or> d = 4 \<or> d = 5 \<or> d = 6 \<or> d = 7
      \<or> d = 8 \<or> d = 9 \<or> d = 10 \<or> d = 11 \<or> d = 12 \<or> d = 13 \<or> d = 14 \<or> d = 15"
    by arith
  then show ?thesis
    by (elim disjE) (simp_all add: isWhiteSpace_def digit_char_def)
qed

lemma parse_hex_digits:
  "0 \<le> n \<Longrightarrow> parse_digits 16 0 (toString_digits 16 n) = Some n"
proof (induction "16::int" n rule: toString_digits.induct)
  case (1 n)
  show ?case
  proof (cases "n < 16")
    case True
    with 1(2) show ?thesis
      by (subst toString_digits.simps) (simp add: digit_value_digit_char)
  next
    case False
    with 1(2) have d: "0 \<le> n div 16" by simp
    have m: "0 \<le> n mod 16" "n mod 16 < 16" by simp_all
    from False have ih: "parse_digits 16 0 (toString_digits 16 (n div 16)) = Some (n div 16)"
      using 1(1) d by simp
    show ?thesis
      using False
      by (subst toString_digits.simps)
        (simp add: parse_digits_append ih digit_value_digit_char[OF m])
  qed
qed

lemma toString_digits_last:
  "0 \<le> n \<Longrightarrow> toString_digits 16 n \<noteq> [] \<and> \<not> isWhiteSpace (last (toString_digits 16 n))"
  by (subst (1 2) toString_digits.simps) (auto simp: digit_char_not_space)

lemma trim_id:
  assumes "s \<noteq> []" "\<not> isWhiteSpace (hd s)" "\<not> isWhiteSpace (last s)"
  shows "trim s = s"
proof -
  from assms have "dropWhile isWhiteSpace s = s" by (cases s) auto
  moreover from assms have "dropWhile isWhiteSpace (rev s) = rev s"
    by (cases "rev s") (auto simp: last_rev[symmetric] simp del: last_rev)
  ultimately show ?thesis by (simp add: trim_def)
qed

lemma StringToBigInt_toHexBlock:
  assumes "0 \<le> n"
  shows "StringToBigInt (toHexBlock n) = Some n"
proof -
  let ?d = "toString_digits 16 n"
  from toString_digits_last[OF assms] have ne: "?d \<noteq> []" and l: "\<not> isWhiteSpace (last ?d)"
    by simp_all
  have hx: "toHexBlock n = CHR ''0'' # CHR ''x'' # ?d"
    using assms by (simp add: toHexBlock_def toString_radix_def)
  have "trim (CHR ''0'' # CHR ''x'' # ?d) = CHR ''0'' # CHR ''x'' # ?d"
    using ne l by (intro trim_id) (simp_all add: isWhiteSpace_def)
  then show ?thesis
    using ne parse_hex_digits[OF assms]
    by (simp add: hx StringToBigInt_def parse_number_def)
qed

section \<open>Scanning an honest provider\<close>

lemma rpc_always_succeeds:
  assumes "\<And>n url. response_result (p n url req) = Inr r"
  shows "fst (rpc p cfg req st) = Inr r"
proof -
  from rpc_attempts[of cfg st p req] obtain k where
    "fst (rpc p cfg req st) = attempt_result p cfg req st (k - 1)" by blast
  with assms show ?thesis by (simp add: attempt_result_def)
qed

lemma chain_getLogs:
  assumes "0 \<le> a" "0 \<le> b"
  shows "response_result (chain_provider head history n url
            (Eth_getLogs \<lparr>address = c, fromBlock = toHexBlock a, toBlock = toHexBlock b, filter_topics = ts\<rparr>)) =
         Inr (RLogs (map snd (filter (\<lambda>(bn, lg). a \<le> bn \<and> bn \<le> b \<and> topics_match ts (topics lg)) history)))"
  using assms
  by (simp add: chain_provider_def eth_getLogs_def StringToBigInt_toHexBlock response_result_def)

lemma scan_chunk_chain:
  assumes "BETTA_CONTRACT cfg \<noteq> []" "w \<noteq> []" "0 \<le> a" "0 \<le> b"
  shows "fst (scan_chunk (chain_provider head history) cfg w a b s st) =
           Inr (chunk_apply w history s (a, b))"
proof -
  let ?p = "chain_provider head history"
  obtain r1 st1 where g1: "getTransferLogs ?p cfg a b None (Some w) st = (r1, st1)" by fastforce
  obtain r2 st2 where g2: "getTransferLogs ?p cfg a b (Some w) None st1 = (r2, st2)" by fastforce
  have r1: "r1 = Inr (RLogs (map snd (filter (\<lambda>(bn, lg). a \<le> bn \<and> bn \<le> b \<and> incoming w lg) history)))"
    using g1 assms
      rpc_always_succeeds[of ?p _ _ cfg st, OF chain_getLogs[OF assms(3,4)]]
    by (auto simp: getTransferLogs_def topic_of_def incoming_def prod_eq_iff)
  have r2: "r2 = Inr (RLogs (map snd (filter (\<lambda>(bn, lg). a \<le> bn \<and> bn \<le> b \<and> outgoing w lg) history)))"
    using g2 assms
      rpc_always_succeeds[of ?p _ _ cfg st1, OF chain_getLogs[OF assms(3,4)]]
    by (auto simp: getTransferLogs_def topic_of_def outgoing_def prod_eq_iff)
  show ?thesis
    by (simp add: scan_chunk_def g1 g2 r1 r2 iterate_def chunk_apply_def)
qed

lemma scan_loop_chain:
  assumes w: "w \<noteq> []"
  shows "0 < LOG_CHUNK cfg \<Longrightarrow> BETTA_CONTRACT cfg \<noteq> [] \<Longrightarrow> 0 \<le> f \<Longrightarrow>
         \<exists>st'. scan_loop (chain_provider head history) cfg w latest f s st =
           Some (Inr (foldl (chunk_apply w history) s (chunk_ranges cfg f latest)), st')"
proof (induction cfg f latest arbitrary: s st rule: chunk_ranges.induct)
  case (1 cfg f latest)
  note pos = \<open>0 < LOG_CHUNK cfg\<close> and con = \<open>BETTA_CONTRACT cfg \<noteq> []\<close> and f0 = \<open>0 \<le> f\<close>
  show ?case
  proof (cases "f \<le> latest")
    case False
    then show ?thesis
      by (subst scan_loop.simps, subst chunk_ranges.simps) simp
  next
    case True
    let ?e = "chunk_end cfg f latest"
    let ?p = "chain_provider head history"
    from True f0 pos have e: "0 \<le> ?e" by (auto simp: chunk_end_def)
    obtain r st1 where c: "scan_chunk ?p cfg w f ?e s st = (r, st1)" by fastforce
    with scan_chunk_chain[OF con w f0 e, of head history s st]
    have r: "r = Inr (chunk_apply w history s (f, ?e))" by simp
    from f0 pos have "0 \<le> f + LOG_CHUNK cfg" by simp
    from 1(1)[OF _ pos con this, of "chunk_apply w history s (f, ?e)" st1] True pos
    obtain st' where
      "scan_loop ?p cfg w latest (f + LOG_CHUNK cfg) (chunk_apply w history s (f, ?e)) st1 =
         Some (Inr (foldl (chunk_apply w history) (chunk_apply w history s (f, ?e))
                 (chunk_ranges cfg (f + LOG_CHUNK cfg) latest)), st')"
      by auto
    then show ?thesis
      using True pos c r
      by (subst scan_loop.simps, subst chunk_ranges.simps) simp
  qed
qed

section \<open>Chunks and the order of events\<close>

lemma token_ids_simps [simp]:
  "token_ids [] = {}"
  "token_ids (lg # lgs) = (case tokenIdFromLog lg of None \<Rightarrow> {} | Some t \<Rightarrow> {t}) \<union> token_ids lgs"
  by (auto simp: token_ids_def split: option.splits)

lemma token_ids_append [simp]: "token_ids (xs @ ys) = token_ids xs \<union> token_ids ys"
  by (auto simp: token_ids_def)


lemma set_add_received: "set (add_received lgs s) = set s \<union> token_ids lgs"
proof (induction lgs arbitrary: s)
  case Nil
  then show ?case by simp
next
  case (Cons lg lgs)
  then show ?case by (cases "tokenIdFromLog lg") auto
qed

lemma set_delete_sent: "set (delete_sent lgs s) = set s - token_ids lgs"
proof (induction lgs arbitrary: s)
  case Nil
  then show ?case by simp
next
  case (Cons lg lgs)
  then show ?case by (cases "tokenIdFromLog lg") auto
qed

lemma set_chunk_apply:
  "set (chunk_apply w history s (a, b)) =
     (set s \<union> token_ids (map snd (filter (\<lambda>(bn, lg). a \<le> bn \<and> bn \<le> b \<and> incoming w lg) history)))
       - token_ids (map snd (filter (\<lambda>(bn, lg). a \<le> bn \<and> bn \<le> b \<and> outgoing w lg) history))"
  by (simp add: chunk_apply_def set_add_received set_delete_sent)


lemma replay_Cons [simp]: "replay w (lg # lgs) s = replay w lgs (apply_event w s lg)"
  by (simp add: replay_def)

lemma replay_Nil [simp]: "replay w [] s = s"
  by (simp add: replay_def)






lemma chunk_apply_cong:
  "set s = set s' \<Longrightarrow> set (chunk_apply w history s c) = set (chunk_apply w history s' c)"
  by (cases c) (simp add: set_chunk_apply)




lemma alice_topic:
  "topicForAddress alice = ''0x00000000000000000000000000000000000000000000000000000000000000a1''"
  by code_simp

lemma bob_topic:
  "topicForAddress bob = ''0x00000000000000000000000000000000000000000000000000000000000000b2''"
  by code_simp

lemma token_topic_7:
  "StringToBigInt (''0x'' @ pad64No0x (toString_radix 16 7)) = Some 7"
  by code_simp

lemma token_7: "tokenIdFromLog (transfer a b 7) = Some 7"
  using token_topic_7 by (simp add: tokenIdFromLog_def transfer_def)

lemma alice_events [simp]:
  "incoming alice (transfer bob alice t)" "\<not> outgoing alice (transfer bob alice t)"
  "outgoing alice (transfer alice bob t)" "\<not> incoming alice (transfer alice bob t)"
  by (simp_all add: incoming_def outgoing_def transfer_def alice_topic bob_topic)

lemma two_endpoints_fields:
  "RPC_URLS two_endpoints = [''https://a.example'', ''https://b.example'']"
  "BETTA_CONTRACT two_endpoints = ''0x00000000000000000000000000000000000000c0''"
  "START_BLOCK two_endpoints = 1"
  "LOG_CHUNK two_endpoints = 20000"
  by (simp_all add: two_endpoints_def)




lemma alice_nonempty: "alice \<noteq> []"
  by (simp add: alice_def)







section \<open>The order of the persisted token ids\<close>

lemma isHexAddress_nonempty: "isHexAddress w \<Longrightarrow> w \<noteq> []"
  by (auto simp: isHexAddress_def Let_def trim_def)

lemma chain_head:
  assumes "0 \<le> head"
  shows "fst (getLatestBlockNumber (chain_provider head history) cfg st) = Inr head"
proof -
  have "\<And>n url. response_result (chain_provider head history n url Eth_blockNumber) =
      Inr (RStr (toHexBlock head))"
    by (simp add: chain_provider_def response_result_def)
  then have "fst (rpc (chain_provider head history) cfg Eth_blockNumber st) = Inr (RStr (toHexBlock head))"
    by (rule rpc_always_succeeds)
  then show ?thesis
    using assms
    by (cases "rpc (chain_provider head history) cfg Eth_blockNumber st")
      (simp add: getLatestBlockNumber_def BigInt_def StringToBigInt_toHexBlock)
qed

lemma start_block_ge: "START_BLOCK cfg \<le> start_block cfg entry"
  by (auto simp: start_block_def split: option.splits)

lemma chunk_ranges_empty: "latest < f \<Longrightarrow> chunk_ranges cfg f latest = []"
  by (subst chunk_ranges.simps) simp

lemma refresh_chain:
  assumes cfg: "0 < LOG_CHUNK cfg" "BETTA_CONTRACT cfg \<noteq> []" "0 \<le> START_BLOCK cfg"
    and w: "isHexAddress (toLowerCase (trim wallet))"
    and head: "0 \<le> head"
  shows "\<exists>st'. updateOwnedTokensForWallet (chain_provider head history) cfg wallet st =
      Some (Inr \<lparr>lastScannedBlock = Some head,
                 tokenIds = sortTokenIds
                   (foldl (chunk_apply (toLowerCase (trim wallet)) history)
                      (new_Set (tokenIds (cached_entry st (toLowerCase (trim wallet)))))
                      (chunk_ranges cfg (start_block cfg (cached_entry st (toLowerCase (trim wallet)))) head))\<rparr>,
            st')
    \<and> ownedCache st' = (ownedCache st)(toLowerCase (trim wallet) \<mapsto>
          \<lparr>lastScannedBlock = Some head,
            tokenIds = sortTokenIds
              (foldl (chunk_apply (toLowerCase (trim wallet)) history)
                 (new_Set (tokenIds (cached_entry st (toLowerCase (trim wallet)))))
                 (chunk_ranges cfg (start_block cfg (cached_entry st (toLowerCase (trim wallet)))) head))\<rparr>)"
proof -
  let ?p = "chain_provider head history"
  let ?w = "toLowerCase (trim wallet)"
  let ?start = "start_block cfg (cached_entry st ?w)"
  let ?s = "new_Set (tokenIds (cached_entry st ?w))"
  obtain h st1 where g: "getLatestBlockNumber ?p cfg st = (h, st1)" by fastforce
  with chain_head[OF head, of history cfg st] have h: "h = Inr head" by simp
  have c1: "ownedCache st1 = ownedCache st"
    using getLatestBlockNumber_store[of ?p cfg st] g by simp
  show ?thesis
  proof (cases "?start > head")
    case True
    then show ?thesis
      using cfg(2) w g h c1
      by (simp add: updateOwnedTokensForWallet_def Let_def chunk_ranges_empty)
  next
    case False
    from start_block_ge[of cfg "cached_entry st ?w"] cfg(3) have s0: "0 \<le> ?start" by simp
    from scan_loop_chain[OF isHexAddress_nonempty[OF w] cfg(1,2) s0, of head history head ?s st1]
    obtain st2 where l: "scan_loop ?p cfg ?w head ?start ?s st1 =
        Some (Inr (foldl (chunk_apply ?w history) ?s (chunk_ranges cfg ?start head)), st2)"
      by blast
    from scan_loop_store[OF l] c1 have c2: "ownedCache st2 = ownedCache st" by simp
    show ?thesis
      using cfg(2) w g h False l c2
      by (simp add: updateOwnedTokensForWallet_def Let_def)
  qed
qed

lemma large_topics:
  "StringToBigInt (''0x'' @ pad64No0x (toString_radix 16 9007199254740993)) = Some 9007199254740993"
  "StringToBigInt (''0x'' @ pad64No0x (toString_radix 16 9007199254740992)) = Some 9007199254740992"
  by code_simp+

lemma large_tokens:
  "tokenIdFromLog (transfer a b 9007199254740993) = Some 9007199254740993"
  "tokenIdFromLog (transfer a b 9007199254740992) = Some 9007199254740992"
  using large_topics by (simp_all add: tokenIdFromLog_def transfer_def)

lemma large_sorted:
  "sortTokenIds [9007199254740993, 9007199254740992] = [9007199254740993, 9007199254740992]"
  by code_simp

lemma ranges_large: "chunk_ranges two_endpoints 1 2 = [(1, 2)]"
  by (simp add: chunk_ranges.simps chunk_end_def two_endpoints_fields)

text \<open>
  Claim C9 fails on the code. The wallet receives token \<open>2^53 + 1\<close> in block 1 and token
  \<open>2^53\<close> in block 2. Both ids have the same \<open>Number\<close> value, the comparator returns 0 and
  the stable sort leaves them in insertion order: the refresh persists and returns
  \<open>[2^53 + 1, 2^53]\<close>, which is not ascending.
\<close>

theorem sort_by_Number_misorders_large_ids:
  "fst (the (updateOwnedTokensForWallet (chain_provider 2 large_ids) two_endpoints alice initial_state)) =
     Inr \<lparr>lastScannedBlock = Some 2, tokenIds = [9007199254740993, 9007199254740992]\<rparr>
   \<and> Number 9007199254740993 = Number 9007199254740992
   \<and> \<not> sorted [9007199254740993, 9007199254740992 :: int]"
proof -
  have e: "cached_entry initial_state alice = \<lparr>lastScannedBlock = None, tokenIds = []\<rparr>"
    by (simp add: cached_entry_def initial_state_def)
  have s: "foldl (chunk_apply alice large_ids) [] (chunk_ranges two_endpoints 1 2) =
      [9007199254740993, 9007199254740992]"
    by (simp add: ranges_large chunk_apply_def large_ids_def large_tokens set_add_def set_delete_def)
  have n: "Number 9007199254740993 = Number 9007199254740992"
    by code_simp
  from refresh_chain[of two_endpoints alice 2 large_ids initial_state]
  have "\<exists>st'. updateOwnedTokensForWallet (chain_provider 2 large_ids) two_endpoints alice initial_state =
      Some (Inr \<lparr>lastScannedBlock = Some 2, tokenIds = [9007199254740993, 9007199254740992]\<rparr>, st')"
    by (simp add: two_endpoints_fields alice_norm alice_hex e start_block_def new_Set_def s large_sorted)
      blast
  with n show ?thesis by auto
qed

section \<open>The stored \<open>lastScannedBlock\<close>\<close>

lemma refresh_succeeds:
  assumes "updateOwnedTokensForWallet p cfg wallet st = Some (Inr cp, st')"
  shows "(\<exists>latest st1. getLatestBlockNumber p cfg st = (Inr latest, st1) \<and> lastScannedBlock cp = Some latest)
     \<and> ownedCache st' = (ownedCache st)(toLowerCase (trim wallet) \<mapsto> cp)
     \<and> wallet_owned_json st' = (ownedCache st)(toLowerCase (trim wallet) \<mapsto> cp)"
proof -
  obtain h st1 where g: "getLatestBlockNumber p cfg st = (h, st1)" by fastforce
  have c1: "ownedCache st1 = ownedCache st"
    using getLatestBlockNumber_store[of p cfg st] g by simp
  from assms g obtain latest where h: "h = Inr latest"
    by (cases h) (auto simp: updateOwnedTokensForWallet_def Let_def split: if_splits)
  show ?thesis
    using assms g h c1
    by (auto simp: updateOwnedTokensForWallet_def Let_def
        split: if_splits option.splits sum.splits prod.splits dest!: scan_loop_store)
qed

lemma refresh_never_decreases_below_head:
  assumes "updateOwnedTokensForWallet p cfg wallet st = Some (Inr cp, st')"
    and "getLatestBlockNumber p cfg st = (Inr latest, st1)"
    and "lastScannedBlock (cached_entry st (toLowerCase (trim wallet))) = Some prev" "prev \<le> latest"
  shows "\<exists>new. lastScannedBlock cp = Some new \<and> prev \<le> new"
  using refresh_succeeds[OF assms(1)] assms(2,4) by auto

lemma refresh_all_null_iff:
  "refresh_all p cfg ws st = Some (rs, st') \<Longrightarrow>
   (\<forall>w cp. ownedCache st w = Some cp \<longrightarrow> lastScannedBlock cp \<noteq> None) \<Longrightarrow>
   length rs = length ws \<and>
   (\<forall>w. lastScannedBlock (cached_entry st' w) = None \<longleftrightarrow>
      (ownedCache st w = None \<and> (\<forall>i < length ws. toLowerCase (trim (ws ! i)) = w \<longrightarrow> isl (rs ! i))))"
proof (induction ws arbitrary: st rs)
  case Nil
  then show ?case
    by (auto simp: cached_entry_def split: option.splits)
next
  case (Cons w0 ws)
  from Cons.prems(1) obtain r st1 rs' where
    u: "updateOwnedTokensForWallet p cfg w0 st = Some (r, st1)"
    and ra: "refresh_all p cfg ws st1 = Some (rs', st')"
    and rs: "rs = r # rs'"
    by (auto split: option.splits prod.splits)
  show ?case
  proof (cases r)
    case (Inl e)
    with u refresh_fails_unchanged[of p cfg w0 st e st1]
    have c: "ownedCache st1 = ownedCache st" by simp
    with Cons.prems(2) have inv: "\<forall>w cp. ownedCache st1 w = Some cp \<longrightarrow> lastScannedBlock cp \<noteq> None"
      by simp
    from Cons.IH[OF ra inv] c Inl rs show ?thesis
      by (auto simp: nth_Cons less_Suc_eq_0_disj split: nat.splits)
  next
    case (Inr cp)
    with u refresh_succeeds[of p cfg w0 st cp st1]
    have c: "ownedCache st1 = (ownedCache st)(toLowerCase (trim w0) \<mapsto> cp)"
      and l: "lastScannedBlock cp \<noteq> None"
      by auto
    with Cons.prems(2) have inv: "\<forall>w cp. ownedCache st1 w = Some cp \<longrightarrow> lastScannedBlock cp \<noteq> None"
      by auto
    from Cons.IH[OF ra inv] have len: "length rs' = length ws"
      and iff: "\<And>w. lastScannedBlock (cached_entry st' w) = None \<longleftrightarrow>
         (ownedCache st1 w = None \<and> (\<forall>i < length ws. toLowerCase (trim (ws ! i)) = w \<longrightarrow> isl (rs' ! i)))"
      by blast+
    show ?thesis
    proof (intro conjI allI)
      show "length rs = length (w0 # ws)" using len rs by simp
    next
      fix w
      show "lastScannedBlock (cached_entry st' w) = None \<longleftrightarrow>
        (ownedCache st w = None \<and>
          (\<forall>i < length (w0 # ws). toLowerCase (trim ((w0 # ws) ! i)) = w \<longrightarrow> isl (rs ! i)))"
        using iff[of w] c Inr rs
        by (auto simp: nth_Cons less_Suc_eq_0_disj split: nat.splits if_splits)
    qed
  qed
qed

text \<open>
  Claim C5, as amended. A successful refresh stores its result under the wallet, with
  \<open>lastScannedBlock\<close> set to the chain head that this refresh observed; the stored value
  therefore does not decrease when that head is not below the value stored before. Over any
  sequence of refresh calls that starts from a cache without null entries, the
  \<open>lastScannedBlock\<close> of a wallet is null exactly when the wallet had no entry at the start and
  no refresh of it has succeeded.
\<close>

theorem lastScannedBlock_tracks_observed_head:
  "(\<forall>cp st'. updateOwnedTokensForWallet p cfg wallet st = Some (Inr cp, st') \<longrightarrow>
      ownedCache st' = (ownedCache st)(toLowerCase (trim wallet) \<mapsto> cp)
    \<and> (\<exists>latest st1. getLatestBlockNumber p cfg st = (Inr latest, st1)
          \<and> lastScannedBlock cp = Some latest
          \<and> (\<forall>prev. lastScannedBlock (cached_entry st (toLowerCase (trim wallet))) = Some prev
                 \<and> prev \<le> latest \<longrightarrow>
               (\<exists>new. lastScannedBlock (cached_entry st' (toLowerCase (trim wallet))) = Some new
                  \<and> prev \<le> new))))
   \<and> (\<forall>ws rs st'. refresh_all p cfg ws st = Some (rs, st')
          \<and> (\<forall>w cp. ownedCache st w = Some cp \<longrightarrow> lastScannedBlock cp \<noteq> None) \<longrightarrow>
        (\<forall>w. lastScannedBlock (cached_entry st' w) = None \<longleftrightarrow>
           (ownedCache st w = None
            \<and> (\<forall>i < length ws. toLowerCase (trim (ws ! i)) = w \<longrightarrow> isl (rs ! i)))))"
proof (rule conjI)
  show "\<forall>cp st'. updateOwnedTokensForWallet p cfg wallet st = Some (Inr cp, st') \<longrightarrow>
      ownedCache st' = (ownedCache st)(toLowerCase (trim wallet) \<mapsto> cp)
    \<and> (\<exists>latest st1. getLatestBlockNumber p cfg st = (Inr latest, st1)
          \<and> lastScannedBlock cp = Some latest
          \<and> (\<forall>prev. lastScannedBlock (cached_entry st (toLowerCase (trim wallet))) = Some prev
                 \<and> prev \<le> latest \<longrightarrow>
               (\<exists>new. lastScannedBlock (cached_entry st' (toLowerCase (trim wallet))) = Some new
                  \<and> prev \<le> new)))"
  proof (intro allI impI)
    fix cp st'
    assume u: "updateOwnedTokensForWallet p cfg wallet st = Some (Inr cp, st')"
    from refresh_succeeds[OF u] obtain latest st1 where
      g: "getLatestBlockNumber p cfg st = (Inr latest, st1)" and l: "lastScannedBlock cp = Some latest"
      and c: "ownedCache st' = (ownedCache st)(toLowerCase (trim wallet) \<mapsto> cp)"
      by blast
    from c have "cached_entry st' (toLowerCase (trim wallet)) = cp"
      by (simp add: cached_entry_def)
    with g l c show "ownedCache st' = (ownedCache st)(toLowerCase (trim wallet) \<mapsto> cp)
    \<and> (\<exists>latest st1. getLatestBlockNumber p cfg st = (Inr latest, st1)
          \<and> lastScannedBlock cp = Some latest
          \<and> (\<forall>prev. lastScannedBlock (cached_entry st (toLowerCase (trim wallet))) = Some prev
                 \<and> prev \<le> latest \<longrightarrow>
               (\<exists>new. lastScannedBlock (cached_entry st' (toLowerCase (trim wallet))) = Some new
                  \<and> prev \<le> new)))"
      by simp
  qed
next
  show "\<forall>ws rs st'. refresh_all p cfg ws st = Some (rs, st')
          \<and> (\<forall>w cp. ownedCache st w = Some cp \<longrightarrow> lastScannedBlock cp \<noteq> None) \<longrightarrow>
        (\<forall>w. lastScannedBlock (cached_entry st' w) = None \<longleftrightarrow>
           (ownedCache st w = None
            \<and> (\<forall>i < length ws. toLowerCase (trim (ws ! i)) = w \<longrightarrow> isl (rs ! i))))"
    using refresh_all_null_iff[of p cfg _ st] by blast
qed

lemma scan_loop_done: "latest < f \<Longrightarrow> scan_loop p cfg w latest f s st = Some (Inr s, st)"
  by (subst scan_loop.simps) simp

lemma scan_loop_single_chunk:
  "f \<le> latest \<Longrightarrow> latest < f + LOG_CHUNK cfg \<Longrightarrow>
     scan_loop p cfg w latest f s st =
       Some (scan_chunk p cfg w f (chunk_end cfg f latest) s st)"
  by (subst scan_loop.simps) (auto simp: scan_loop_done split: prod.splits sum.splits)

lemma lagging_first:
  "fst (the (updateOwnedTokensForWallet lagging_endpoint two_endpoints alice initial_state)) =
     Inr \<lparr>lastScannedBlock = Some 10, tokenIds = []\<rparr>"
  by (simp add: refresh_run small_hex alice_norm alice_hex two_endpoints_fields lagging_endpoint_def
      initial_state_def scan_loop_single_chunk sortTokenIds_def split: prod.splits)

lemma lagging_first_state:
  "rpcCursor (snd (the (updateOwnedTokensForWallet lagging_endpoint two_endpoints alice initial_state))) = 1"
  "ownedCache (snd (the (updateOwnedTokensForWallet lagging_endpoint two_endpoints alice initial_state))) =
     [alice \<mapsto> \<lparr>lastScannedBlock = Some 10, tokenIds = []\<rparr>]"
  by (simp_all add: refresh_run small_hex alice_norm alice_hex two_endpoints_fields lagging_endpoint_def
      initial_state_def scan_loop_single_chunk sortTokenIds_def split: prod.splits)

lemma lagging_second:
  assumes "rpcCursor st = 1" "ownedCache st = [alice \<mapsto> \<lparr>lastScannedBlock = Some 10, tokenIds = []\<rparr>]"
  shows "fst (the (updateOwnedTokensForWallet lagging_endpoint two_endpoints alice st)) =
     Inr \<lparr>lastScannedBlock = Some 5, tokenIds = []\<rparr>"
  using assms
  by (simp add: refresh_run small_hex alice_norm alice_hex two_endpoints_fields lagging_endpoint_def
      sortTokenIds_def split: prod.splits)

text \<open>
  Claim C5 fails as stated. With two endpoints of which the second lags behind, a first
  refresh asks the first endpoint, scans up to block 10 and stores \<open>lastScannedBlock = 10\<close>;
  the next refresh asks the second endpoint, observes head 5, finds nothing to scan and
  stores \<open>lastScannedBlock = 5\<close>. Both calls succeed and the stored value decreases.
\<close>

theorem lagging_endpoint_moves_checkpoint_back:
  "fst (the (updateOwnedTokensForWallet lagging_endpoint two_endpoints alice initial_state)) =
     Inr \<lparr>lastScannedBlock = Some 10, tokenIds = []\<rparr>
   \<and> fst (the (updateOwnedTokensForWallet lagging_endpoint two_endpoints alice
        (snd (the (updateOwnedTokensForWallet lagging_endpoint two_endpoints alice initial_state))))) =
     Inr \<lparr>lastScannedBlock = Some 5, tokenIds = []\<rparr>"
  using lagging_first lagging_second[OF lagging_first_state] by (rule conjI)

lemma lagging_first_returns:
  "\<exists>st'. updateOwnedTokensForWallet lagging_endpoint two_endpoints alice initial_state =
     Some (Inr \<lparr>lastScannedBlock = Some 10, tokenIds = []\<rparr>, st')"
  by (simp add: refresh_run small_hex alice_norm alice_hex two_endpoints_fields lagging_endpoint_def
      initial_state_def scan_loop_single_chunk sortTokenIds_def split: prod.splits)

lemma alice_not_bob: "alice \<noteq> bob"
  by (simp add: alice_def bob_def)

theorem lastScannedBlock_tracks_observed_head_witness:
  "(\<exists>new. lastScannedBlock (cached_entry
        (snd (the (updateOwnedTokensForWallet unauthorized_later small_chunks alice scanned_state)))
        alice) = Some new \<and> 3 \<le> new)
   \<and> lastScannedBlock (cached_entry scanned_state alice) = Some 3
   \<and> lastScannedBlock (cached_entry
        (snd (the (refresh_all lagging_endpoint two_endpoints [alice] initial_state))) bob) = None
   \<and> lastScannedBlock (cached_entry
        (snd (the (refresh_all lagging_endpoint two_endpoints [alice] initial_state))) alice) \<noteq> None"
proof -
  let ?p = unauthorized_later and ?cfg = small_chunks
  obtain h st1 where g: "getLatestBlockNumber ?p ?cfg scanned_state = (h, st1)" by fastforce
  with scanned_head have h: "h = Inr 3" by simp
  have prev: "lastScannedBlock (cached_entry scanned_state alice) = Some 3"
    by (simp add: scanned_entry)
  have gt: "start_block ?cfg (cached_entry scanned_state (toLowerCase (trim alice))) > 3"
    by (simp add: alice_norm scanned_entry start_block_def small_chunks_fields)
  from nothing_new[of ?cfg alice ?p scanned_state 3 st1] g h gt
  obtain cp st' where u: "updateOwnedTokensForWallet ?p ?cfg alice scanned_state = Some (Inr cp, st')"
    by (simp add: alice_norm alice_hex small_chunks_fields)
  from lastScannedBlock_tracks_observed_head[of ?p ?cfg alice scanned_state] u g h prev
  have a: "\<exists>new. lastScannedBlock (cached_entry st' alice) = Some new \<and> 3 \<le> new"
    by (simp add: alice_norm)
  obtain st2 where f: "updateOwnedTokensForWallet lagging_endpoint two_endpoints alice initial_state =
     Some (Inr \<lparr>lastScannedBlock = Some 10, tokenIds = []\<rparr>, st2)"
    using lagging_first_returns by blast
  then have ra: "refresh_all lagging_endpoint two_endpoints [alice] initial_state =
      Some ([Inr \<lparr>lastScannedBlock = Some 10, tokenIds = []\<rparr>], st2)"
    by simp
  have inv: "\<forall>w cp. ownedCache initial_state w = Some cp \<longrightarrow> lastScannedBlock cp \<noteq> None"
    by (simp add: initial_state_def)
  from lastScannedBlock_tracks_observed_head[of lagging_endpoint two_endpoints alice initial_state] ra inv
  have iff: "\<And>w. lastScannedBlock (cached_entry st2 w) = None \<longleftrightarrow>
      (ownedCache initial_state w = None \<and>
        (\<forall>i < length [alice]. toLowerCase (trim ([alice] ! i)) = w \<longrightarrow>
           isl ([Inr \<lparr>lastScannedBlock = Some 10, tokenIds = []\<rparr> :: error + checkpoint] ! i)))"
    by blast
  have b: "lastScannedBlock (cached_entry st2 bob) = None"
    using iff[of bob] alice_not_bob by (simp add: initial_state_def alice_norm)
  have c: "lastScannedBlock (cached_entry st2 alice) \<noteq> None"
    using iff[of alice] by (simp add: initial_state_def alice_norm)
  from a prev b c u ra show ?thesis by simp
qed

section \<open>Refreshing twice\<close>

lemma prefix_length: "prefix xs ys \<Longrightarrow> length xs \<le> length ys"
  by (auto simp: prefix_def)

lemma distinct_add_received: "distinct s \<Longrightarrow> distinct (add_received lgs s)"
  by (induction lgs arbitrary: s) (auto split: option.splits)

lemma distinct_delete_sent: "distinct s \<Longrightarrow> distinct (delete_sent lgs s)"
  by (induction lgs arbitrary: s) (auto split: option.splits)

lemma distinct_scan_chunk:
  "distinct s \<Longrightarrow> scan_chunk p cfg w a b s st = (Inr s', st') \<Longrightarrow> distinct s'"
  by (auto simp: scan_chunk_def distinct_add_received distinct_delete_sent
      split: prod.splits sum.splits)

lemma distinct_scan_loop:
  assumes l: "scan_loop p cfg w latest f s st = Some y"
  shows "distinct s \<longrightarrow> (\<forall>s' st'. y = (Inr s', st') \<longrightarrow> distinct s')"
proof (rule scan_loop.raw_induct
    [where P = "\<lambda>p cfg w latest f s st y.
       distinct s \<longrightarrow> (\<forall>s' st'. y = (Inr s', st') \<longrightarrow> distinct s')",
     OF _ l])
  fix loop :: "provider \<Rightarrow> config \<Rightarrow> string \<Rightarrow> int \<Rightarrow> int \<Rightarrow> int list \<Rightarrow> state
      \<Rightarrow> ((error + int list) \<times> state) option"
    and p cfg w latest f s st y
  assume IH: "\<And>p cfg w latest f s st y. loop p cfg w latest f s st = Some y \<Longrightarrow>
     distinct s \<longrightarrow> (\<forall>s' st'. y = (Inr s', st') \<longrightarrow> distinct s')"
  assume body: "(if f \<le> latest
      then case scan_chunk p cfg w f (chunk_end cfg f latest) s st of
           (Inl e, st') \<Rightarrow> Some (Inl e, st')
           | (Inr s', st') \<Rightarrow> loop p cfg w latest (f + LOG_CHUNK cfg) s' st'
      else Some (Inr s, st)) = Some y"
  show "distinct s \<longrightarrow> (\<forall>s' st'. y = (Inr s', st') \<longrightarrow> distinct s')"
  proof
    assume d: "distinct s"
    show "\<forall>s' st'. y = (Inr s', st') \<longrightarrow> distinct s'"
    proof (cases "f \<le> latest")
      case False
      with body d show ?thesis by auto
    next
      case True
      obtain r st1 where c: "scan_chunk p cfg w f (chunk_end cfg f latest) s st = (r, st1)"
        by fastforce
      show ?thesis
      proof (cases r)
        case (Inl e)
        with body True c show ?thesis by auto
      next
        case (Inr s1)
        with distinct_scan_chunk[OF d] c have d1: "distinct s1" by simp
        from Inr body True c have "loop p cfg w latest (f + LOG_CHUNK cfg) s1 st1 = Some y"
          by simp
        from IH[OF this] d1 show ?thesis by simp
      qed
    qed
  qed
qed

lemma refresh_result_distinct:
  assumes u: "updateOwnedTokensForWallet p cfg wallet st = Some (Inr cp, st')"
  shows "distinct (tokenIds cp) \<and> sorted (map Number (tokenIds cp))"
proof -
  let ?w = "toLowerCase (trim wallet)"
  let ?s = "new_Set (tokenIds (cached_entry st ?w))"
  obtain h st1 where g: "getLatestBlockNumber p cfg st = (h, st1)" by fastforce
  from u g obtain latest where h: "h = Inr latest"
    by (cases h) (auto simp: updateOwnedTokensForWallet_def Let_def split: if_splits)
  have "\<exists>s. distinct s \<and> tokenIds cp = sortTokenIds s"
  proof (cases "start_block cfg (cached_entry st ?w) > latest")
    case True
    with u g h have "tokenIds cp = sortTokenIds ?s"
      by (auto simp: updateOwnedTokensForWallet_def Let_def split: if_splits)
    then show ?thesis using distinct_new_Set by blast
  next
    case False
    with u g h obtain s' st2 where
      l: "scan_loop p cfg ?w latest (start_block cfg (cached_entry st ?w)) ?s st1 = Some (Inr s', st2)"
      and t: "tokenIds cp = sortTokenIds s'"
      by (auto simp: updateOwnedTokensForWallet_def Let_def
          split: if_splits option.splits sum.splits prod.splits)
    from distinct_scan_loop[OF l] have "distinct s'" by simp
    with t show ?thesis by blast
  qed
  then show ?thesis by (auto simp: sortTokenIds_def)
qed

lemma scan_loop_terminates:
  "0 < LOG_CHUNK cfg \<Longrightarrow> \<exists>y. scan_loop p cfg w latest f s st = Some y"
proof (induction cfg f latest arbitrary: s st rule: chunk_ranges.induct)
  case (1 cfg f latest)
  show ?case
  proof (cases "f \<le> latest")
    case False
    then show ?thesis by (subst scan_loop.simps) simp
  next
    case True
    obtain r st1 where c: "scan_chunk p cfg w f (chunk_end cfg f latest) s st = (r, st1)"
      by fastforce
    show ?thesis
    proof (cases r)
      case (Inl e)
      with True c show ?thesis by (subst scan_loop.simps) simp
    next
      case (Inr s1)
      from 1(1)[of s1 st1] True 1(2)
      obtain y where "scan_loop p cfg w latest (f + LOG_CHUNK cfg) s1 st1 = Some y" by auto
      with Inr True c show ?thesis by (subst scan_loop.simps) simp
    qed
  qed
qed

lemma refresh_terminates:
  "0 < LOG_CHUNK cfg \<Longrightarrow> updateOwnedTokensForWallet p cfg wallet st \<noteq> None"
  using scan_loop_terminates[of cfg p]
  by (auto simp: updateOwnedTokensForWallet_def Let_def
      split: if_splits prod.splits sum.splits option.splits) (metis option.distinct(1))

lemma StringToBigInt_toHexBlock_negative:
  assumes "n < 0"
  shows "StringToBigInt (toHexBlock n) = None"
proof -
  let ?d = "toString_digits 16 (- n)"
  from assms have "0 \<le> - n" by simp
  from toString_digits_last[OF this] have ne: "?d \<noteq> []" and l: "\<not> isWhiteSpace (last ?d)"
    by simp_all
  have hx: "toHexBlock n = CHR ''0'' # CHR ''x'' # CHR ''-'' # ?d"
    using assms by (simp add: toHexBlock_def toString_radix_def)
  have "trim (CHR ''0'' # CHR ''x'' # CHR ''-'' # ?d) = CHR ''0'' # CHR ''x'' # CHR ''-'' # ?d"
    using ne l by (intro trim_id) (simp_all add: isWhiteSpace_def)
  then show ?thesis
    by (simp add: hx StringToBigInt_def parse_number_def digit_value_def)
qed

lemma StringToBigInt_toHexBlock_iff:
  "StringToBigInt (toHexBlock n) = Some m \<longleftrightarrow> 0 \<le> n \<and> m = n"
  using StringToBigInt_toHexBlock[of n] StringToBigInt_toHexBlock_negative[of n]
  by (cases "0 \<le> n") auto

lemma rpc_result_is_response:
  assumes "fst (rpc p cfg req st) = Inr r"
  shows "\<exists>n url. response_result (p n url req) = Inr r"
proof -
  from rpc_attempts[of cfg st p req] obtain k where
    "fst (rpc p cfg req st) = attempt_result p cfg req st (k - 1)" by blast
  with assms show ?thesis by (auto simp: attempt_result_def)
qed

lemma chain_getLogs_result:
  assumes "response_result (chain_provider head history n url
            (Eth_getLogs \<lparr>address = c, fromBlock = toHexBlock a, toBlock = toHexBlock b,
                          filter_topics = ts\<rparr>)) = Inr r"
  shows "r = RLogs (map snd (filter (\<lambda>(bn, lg). a \<le> bn \<and> bn \<le> b \<and> topics_match ts (topics lg)) history))"
proof (cases "0 \<le> a \<and> 0 \<le> b")
  case True
  with chain_getLogs[of a b head history n url c ts] assms show ?thesis by simp
next
  case False
  then have "StringToBigInt (toHexBlock a) = None \<or> StringToBigInt (toHexBlock b) = None"
    using StringToBigInt_toHexBlock_negative by auto
  with assms show ?thesis
    by (auto simp: chain_provider_def eth_getLogs_def response_result_def split: option.splits)
qed

lemma chain_getTransferLogs_result:
  assumes "getTransferLogs (chain_provider head history) cfg a b fa ta st = (Inr r, st')"
  shows "r = RLogs (map snd (filter (\<lambda>(bn, lg). a \<le> bn \<and> bn \<le> b
            \<and> topics_match [Some TRANSFER_SIG, topic_of fa, topic_of ta, None] (topics lg)) history))"
proof -
  let ?req = "Eth_getLogs \<lparr>address = BETTA_CONTRACT cfg, fromBlock = toHexBlock a,
      toBlock = toHexBlock b, filter_topics = [Some TRANSFER_SIG, topic_of fa, topic_of ta, None]\<rparr>"
  from assms have "fst (rpc (chain_provider head history) cfg ?req st) = Inr r"
    by (auto simp: getTransferLogs_def split: if_splits)
  from rpc_result_is_response[OF this] obtain n url where
    "response_result (chain_provider head history n url ?req) = Inr r" by blast
  then show ?thesis by (rule chain_getLogs_result)
qed

lemma chain_scan_chunk_result:
  assumes w: "w \<noteq> []"
    and c: "scan_chunk (chain_provider head history) cfg w a b s st = (Inr s', st')"
  shows "s' = chunk_apply w history s (a, b)"
proof -
  let ?p = "chain_provider head history"
  obtain r1 st1 where g1: "getTransferLogs ?p cfg a b None (Some w) st = (r1, st1)" by fastforce
  obtain r2 st2 where g2: "getTransferLogs ?p cfg a b (Some w) None st1 = (r2, st2)" by fastforce
  from c g1 obtain v1 where r1: "r1 = Inr v1"
    by (cases r1) (auto simp: scan_chunk_def)
  from chain_getTransferLogs_result[OF g1[unfolded r1]] w
  have v1: "v1 = RLogs (map snd (filter (\<lambda>(bn, lg). a \<le> bn \<and> bn \<le> b \<and> incoming w lg) history))"
    by (simp add: topic_of_def incoming_def)
  from c g1 g2 r1 v1 obtain v2 where r2: "r2 = Inr v2"
    by (cases r2) (auto simp: scan_chunk_def iterate_def)
  from chain_getTransferLogs_result[OF g2[unfolded r2]] w
  have v2: "v2 = RLogs (map snd (filter (\<lambda>(bn, lg). a \<le> bn \<and> bn \<le> b \<and> outgoing w lg) history))"
    by (simp add: topic_of_def outgoing_def)
  from c show ?thesis
    by (simp add: scan_chunk_def g1 g2 r1 r2 v1 v2 iterate_def chunk_apply_def)
qed

lemma chunk_apply_quiet:
  assumes "\<forall>(bn, lg) \<in> set history. a \<le> bn \<and> bn \<le> b \<longrightarrow> \<not> incoming w lg \<and> \<not> outgoing w lg"
  shows "chunk_apply w history s (a, b) = s"
proof -
  from assms have "filter (\<lambda>(bn, lg). a \<le> bn \<and> bn \<le> b \<and> incoming w lg) history = []"
    and "filter (\<lambda>(bn, lg). a \<le> bn \<and> bn \<le> b \<and> outgoing w lg) history = []"
    by (auto simp: filter_empty_conv)
  then show ?thesis by (simp add: chunk_apply_def)
qed

lemma quiet_chunk:
  assumes q: "no_new_events w history head1 latest"
    and f: "f \<le> latest" and pos: "0 < LOG_CHUNK cfg \<longrightarrow> head1 < f"
  shows "chunk_apply w history s (f, chunk_end cfg f latest) = s"
proof (rule chunk_apply_quiet, clarify)
  fix bn lg
  assume m: "(bn, lg) \<in> set history" and a: "f \<le> bn" and b: "bn \<le> chunk_end cfg f latest"
  have "head1 < bn \<and> bn \<le> latest"
  proof (cases "0 < LOG_CHUNK cfg")
    case True
    with pos a b show ?thesis by (auto simp: chunk_end_def split: if_splits)
  next
    case False
    with f have "chunk_end cfg f latest < f" by (auto simp: chunk_end_def)
    with a b show ?thesis by simp
  qed
  with q m show "\<not> incoming w lg \<and> \<not> outgoing w lg"
    by (auto simp: no_new_events_def list_all_iff)
qed

lemma quiet_scan_loop:
  assumes l: "scan_loop p cfg w latest f s st = Some y"
  shows "\<forall>head history. p = chain_provider head history \<and> w \<noteq> []
           \<and> no_new_events w history head1 latest \<and> (0 < LOG_CHUNK cfg \<longrightarrow> head1 < f) \<longrightarrow>
         (\<forall>s' st'. y = (Inr s', st') \<longrightarrow> s' = s)"
proof (rule scan_loop.raw_induct
    [where P = "\<lambda>p cfg w latest f s st y.
       \<forall>head history. p = chain_provider head history \<and> w \<noteq> []
           \<and> no_new_events w history head1 latest \<and> (0 < LOG_CHUNK cfg \<longrightarrow> head1 < f) \<longrightarrow>
         (\<forall>s' st'. y = (Inr s', st') \<longrightarrow> s' = s)",
     OF _ l])
  fix loop :: "provider \<Rightarrow> config \<Rightarrow> string \<Rightarrow> int \<Rightarrow> int \<Rightarrow> int list \<Rightarrow> state
      \<Rightarrow> ((error + int list) \<times> state) option"
    and p cfg w latest f s st y
  assume IH: "\<And>p cfg w latest f s st y. loop p cfg w latest f s st = Some y \<Longrightarrow>
     \<forall>head history. p = chain_provider head history \<and> w \<noteq> []
           \<and> no_new_events w history head1 latest \<and> (0 < LOG_CHUNK cfg \<longrightarrow> head1 < f) \<longrightarrow>
         (\<forall>s' st'. y = (Inr s', st') \<longrightarrow> s' = s)"
  assume body: "(if f \<le> latest
      then case scan_chunk p cfg w f (chunk_end cfg f latest) s st of
           (Inl e, st') \<Rightarrow> Some (Inl e, st')
           | (Inr s', st') \<Rightarrow> loop p cfg w latest (f + LOG_CHUNK cfg) s' st'
      else Some (Inr s, st)) = Some y"
  show "\<forall>head history. p = chain_provider head history \<and> w \<noteq> []
           \<and> no_new_events w history head1 latest \<and> (0 < LOG_CHUNK cfg \<longrightarrow> head1 < f) \<longrightarrow>
         (\<forall>s' st'. y = (Inr s', st') \<longrightarrow> s' = s)"
  proof (rule allI, rule allI, rule impI, elim conjE)
    fix head history
    assume p: "p = chain_provider head history" and w: "w \<noteq> []"
      and q: "no_new_events w history head1 latest" and pos: "0 < LOG_CHUNK cfg \<longrightarrow> head1 < f"
    show "\<forall>s' st'. y = (Inr s', st') \<longrightarrow> s' = s"
    proof (cases "f \<le> latest")
      case False
      with body show ?thesis by auto
    next
      case True
      obtain r st1 where c: "scan_chunk p cfg w f (chunk_end cfg f latest) s st = (r, st1)"
        by fastforce
      show ?thesis
      proof (cases r)
        case (Inl e)
        with body True c show ?thesis by auto
      next
        case (Inr s1)
        from chain_scan_chunk_result[OF w c[unfolded p Inr]]
        have "s1 = chunk_apply w history s (f, chunk_end cfg f latest)" .
        also have "\<dots> = s" using q True pos by (rule quiet_chunk)
        finally have s1: "s1 = s" .
        from Inr body True c have "loop p cfg w latest (f + LOG_CHUNK cfg) s1 st1 = Some y"
          by simp
        from IH[OF this] p w q pos s1 show ?thesis by auto
      qed
    qed
  qed
qed

lemma chain_head_result:
  assumes "getLatestBlockNumber (chain_provider head history) cfg st = (Inr latest, st')"
  shows "latest = head"
proof -
  obtain r st1 where g: "rpc (chain_provider head history) cfg Eth_blockNumber st = (r, st1)"
    by fastforce
  with assms obtain v where r: "r = Inr v" and b: "BigInt v = Inr latest"
    by (cases r) (auto simp: getLatestBlockNumber_def)
  from g r have "fst (rpc (chain_provider head history) cfg Eth_blockNumber st) = Inr v" by simp
  from rpc_result_is_response[OF this] have "v = RStr (toHexBlock head)"
    by (auto simp: chain_provider_def response_result_def)
  with b show ?thesis
    by (auto simp: BigInt_def StringToBigInt_toHexBlock_iff split: option.splits)
qed

lemma start_block_after: "lastScannedBlock cp = Some prev \<Longrightarrow> prev < start_block cfg cp"
  by (auto simp: start_block_def)

lemma refresh_valid:
  assumes "updateOwnedTokensForWallet p cfg wallet st = Some (Inr cp, st')"
  shows "BETTA_CONTRACT cfg \<noteq> [] \<and> isHexAddress (toLowerCase (trim wallet))"
  using assms by (auto simp: updateOwnedTokensForWallet_def Let_def split: if_splits)

lemma second_refresh_same:
  assumes first: "updateOwnedTokensForWallet p cfg wallet st0 = Some (Inr cp1, st1)"
    and head1: "lastScannedBlock cp1 = Some head1"
    and quiet: "no_new_events (toLowerCase (trim wallet)) history head1 head2"
    and second: "updateOwnedTokensForWallet (chain_provider head2 history) cfg wallet st1 =
        Some (Inr cp2, st2)"
  shows "tokenIds cp2 = tokenIds cp1 \<and> lastScannedBlock cp2 = Some head2
     \<and> (\<exists>sth. getLatestBlockNumber (chain_provider head2 history) cfg st1 = (Inr head2, sth))"
proof -
  let ?w = "toLowerCase (trim wallet)"
  let ?p = "chain_provider head2 history"
  from refresh_succeeds[OF first] have "ownedCache st1 ?w = Some cp1" by simp
  then have e: "cached_entry st1 ?w = cp1" by (simp add: cached_entry_def)
  from refresh_result_distinct[OF first]
  have d: "distinct (tokenIds cp1)" and so: "sorted (map Number (tokenIds cp1))" by simp_all
  from d have ns: "new_Set (tokenIds cp1) = tokenIds cp1" by (rule new_Set_distinct)
  from so have sid: "sortTokenIds (tokenIds cp1) = tokenIds cp1"
    by (simp add: sortTokenIds_def sort_key_id_if_sorted)
  from refresh_valid[OF first] have w: "?w \<noteq> []" by (simp add: isHexAddress_nonempty)
  from refresh_succeeds[OF second] obtain latest sth where
    g: "getLatestBlockNumber ?p cfg st1 = (Inr latest, sth)" and l: "lastScannedBlock cp2 = Some latest"
    by blast
  from chain_head_result[OF g] have latest: "latest = head2" .
  have "tokenIds cp2 = tokenIds cp1"
  proof (cases "start_block cfg cp1 > latest")
    case True
    with second g e ns sid show ?thesis
      by (auto simp: updateOwnedTokensForWallet_def Let_def split: if_splits)
  next
    case False
    with second g e ns obtain s' st3 where
      lp: "scan_loop ?p cfg ?w latest (start_block cfg cp1) (tokenIds cp1) sth = Some (Inr s', st3)"
      and t: "tokenIds cp2 = sortTokenIds s'"
      by (auto simp: updateOwnedTokensForWallet_def Let_def
          split: if_splits option.splits sum.splits prod.splits)
    from quiet_scan_loop[OF lp, of head1] w quiet latest start_block_after[OF head1, of cfg]
    have "s' = tokenIds cp1" by blast
    with t sid show ?thesis by simp
  qed
  with l latest g show ?thesis by auto
qed

lemma carol_topic:
  "topicForAddress carol = ''0x00000000000000000000000000000000000000000000000000000000000000c3''"
  by code_simp

lemma bob_to_carol [simp]:
  "outgoing bob (transfer bob carol t)" "\<not> incoming bob (transfer bob carol t)"
  "\<not> outgoing alice (transfer bob carol t)" "\<not> incoming alice (transfer bob carol t)"
  by (simp_all add: incoming_def outgoing_def transfer_def alice_topic bob_topic carol_topic)

lemma token_topic_5:
  "StringToBigInt (''0x'' @ pad64No0x (toString_radix 16 5)) = Some 5"
  by code_simp

lemma token_5: "tokenIdFromLog (transfer a b 5) = Some 5"
  using token_topic_5 by (simp add: tokenIdFromLog_def transfer_def)

lemma token_topic_9:
  "StringToBigInt (''0x'' @ pad64No0x (toString_radix 16 9)) = Some 9"
  by code_simp

lemma token_9: "tokenIdFromLog (transfer a b 9) = Some 9"
  using token_topic_9 by (simp add: tokenIdFromLog_def transfer_def)

lemma ranges_small:
  "chunk_ranges small_chunks 4 5 = [(4, 5)]"
  "chunk_ranges small_chunks 6 6 = [(6, 6)]"
  "chunk_ranges small_chunks 1 3 = [(1, 2), (3, 3)]"
  by (simp_all add: chunk_ranges.simps chunk_end_def small_chunks_fields)

lemma sortTokenIds_Nil [simp]: "sortTokenIds [] = []"
  by (simp add: sortTokenIds_def)

lemma sort_7_5: "sortTokenIds [7, 5] = [5, 7]" "sortTokenIds [5, 7] = [5, 7]"
  by code_simp+

text \<open>
  Claim C7. A first refresh has succeeded and stored \<open>lastScannedBlock = head1\<close>. The second
  refresh runs against a chain with head \<open>head2\<close> whose history holds no transfer to or from
  the wallet in a block after \<open>head1\<close> and up to \<open>head2\<close>. Whenever the second refresh
  succeeds it returns the \<open>tokenIds\<close> of the first, and its \<open>lastScannedBlock\<close> is \<open>head2\<close>,
  the head it observed. It does succeed when the chunk size is positive and the genesis
  block and the head are not negative.
\<close>

theorem refresh_idempotent_without_new_events:
  assumes "updateOwnedTokensForWallet p cfg wallet st0 = Some (Inr cp1, st1)"
    and "lastScannedBlock cp1 = Some head1"
    and "no_new_events (toLowerCase (trim wallet)) history head1 head2"
  shows "(\<forall>cp2 st2. updateOwnedTokensForWallet (chain_provider head2 history) cfg wallet st1 =
              Some (Inr cp2, st2) \<longrightarrow>
            tokenIds cp2 = tokenIds cp1 \<and> lastScannedBlock cp2 = Some head2
          \<and> (\<exists>sth. getLatestBlockNumber (chain_provider head2 history) cfg st1 = (Inr head2, sth)))
       \<and> (0 < LOG_CHUNK cfg \<and> 0 \<le> START_BLOCK cfg \<and> 0 \<le> head2 \<longrightarrow>
            (\<exists>cp2 st2. updateOwnedTokensForWallet (chain_provider head2 history) cfg wallet st1 =
               Some (Inr cp2, st2)))"
proof (rule conjI)
  show "\<forall>cp2 st2. updateOwnedTokensForWallet (chain_provider head2 history) cfg wallet st1 =
              Some (Inr cp2, st2) \<longrightarrow>
            tokenIds cp2 = tokenIds cp1 \<and> lastScannedBlock cp2 = Some head2
          \<and> (\<exists>sth. getLatestBlockNumber (chain_provider head2 history) cfg st1 = (Inr head2, sth))"
    using second_refresh_same[OF assms] by blast
next
  show "0 < LOG_CHUNK cfg \<and> 0 \<le> START_BLOCK cfg \<and> 0 \<le> head2 \<longrightarrow>
            (\<exists>cp2 st2. updateOwnedTokensForWallet (chain_provider head2 history) cfg wallet st1 =
               Some (Inr cp2, st2))"
  proof
    assume c: "0 < LOG_CHUNK cfg \<and> 0 \<le> START_BLOCK cfg \<and> 0 \<le> head2"
  from refresh_valid[OF assms(1)] have v: "BETTA_CONTRACT cfg \<noteq> []" "isHexAddress (toLowerCase (trim wallet))"
    by simp_all
  from c refresh_chain[OF _ v(1) _ v(2), of head2 history st1]
  show "\<exists>cp2 st2. updateOwnedTokensForWallet (chain_provider head2 history) cfg wallet st1 =
               Some (Inr cp2, st2)"
      by blast
  qed
qed

lemma quiet_after_3: "no_new_events alice quiet_history 3 5"
  by (simp add: no_new_events_def quiet_history_def)

lemma alice_refresh_first:
  "\<exists>st1. updateOwnedTokensForWallet (chain_provider 3 quiet_history) small_chunks alice initial_state =
       Some (Inr \<lparr>lastScannedBlock = Some 3, tokenIds = [5, 7]\<rparr>, st1)"
proof -
  have e: "cached_entry initial_state alice = \<lparr>lastScannedBlock = None, tokenIds = []\<rparr>"
    by (simp add: cached_entry_def initial_state_def)
  have s: "foldl (chunk_apply alice quiet_history) [] (chunk_ranges small_chunks 1 3) = [7, 5]"
    by (simp add: ranges_small chunk_apply_def quiet_history_def token_7 token_5 set_add_def)
  from refresh_chain[of small_chunks alice 3 quiet_history initial_state]
  show ?thesis
    by (simp add: small_chunks_fields alice_norm alice_hex e start_block_def new_Set_def s sort_7_5)
      blast
qed

theorem refresh_idempotent_without_new_events_witness:
  "\<exists>st1 st2.
      updateOwnedTokensForWallet (chain_provider 3 quiet_history) small_chunks alice initial_state =
        Some (Inr \<lparr>lastScannedBlock = Some 3, tokenIds = [5, 7]\<rparr>, st1)
    \<and> no_new_events alice quiet_history 3 5
    \<and> updateOwnedTokensForWallet (chain_provider 5 quiet_history) small_chunks alice st1 =
        Some (Inr \<lparr>lastScannedBlock = Some 5, tokenIds = [5, 7]\<rparr>, st2)"
proof -
  from alice_refresh_first obtain st1 where
    1: "updateOwnedTokensForWallet (chain_provider 3 quiet_history) small_chunks alice initial_state =
       Some (Inr \<lparr>lastScannedBlock = Some 3, tokenIds = [5, 7]\<rparr>, st1)"
    by blast
  have q: "no_new_events (toLowerCase (trim alice)) quiet_history 3 5"
    by (simp add: alice_norm quiet_after_3)
  note inst = refresh_idempotent_without_new_events[OF 1 _ q, simplified]
  from inst obtain cp2 st2 where
    2: "updateOwnedTokensForWallet (chain_provider 5 quiet_history) small_chunks alice st1 =
       Some (Inr cp2, st2)"
    by (auto simp: small_chunks_fields)
  with inst have "tokenIds cp2 = [5, 7] \<and> lastScannedBlock cp2 = Some 5"
    by blast
  then have "cp2 = \<lparr>lastScannedBlock = Some 5, tokenIds = [5, 7]\<rparr>"
    by (cases cp2) simp
  with 1 2 quiet_after_3 show ?thesis by blast
qed

section \<open>Malformed log records\<close>

lemma malformed_skipped: "malformed lg \<longleftrightarrow> tokenIdFromLog lg = None"
  by (auto simp: malformed_def tokenIdFromLog_def Let_def)

lemma add_received_well_formed:
  "add_received (filter (\<lambda>lg. \<not> malformed lg) lgs) s = add_received lgs s"
  by (induction lgs arbitrary: s) (auto simp: malformed_skipped)

lemma delete_sent_well_formed:
  "delete_sent (filter (\<lambda>lg. \<not> malformed lg) lgs) s = delete_sent lgs s"
  by (induction lgs arbitrary: s) (auto simp: malformed_skipped)

lemma drop_malformed_result_simps [simp]:
  "drop_malformed_result (Inl e) = Inl e"
  "drop_malformed_result (Inr r) = Inr (drop_malformed r)"
  by (simp_all add: drop_malformed_result_def)

lemma response_without_malformed:
  "response_result (without_malformed p n url (Eth_getLogs f)) =
     drop_malformed_result (response_result (p n url (Eth_getLogs f)))"
  by (auto simp: without_malformed_def response_result_def drop_malformed_result_def
      split: outcome.splits parsed.splits)

lemma response_without_malformed_head:
  "response_result (without_malformed p n url Eth_blockNumber) =
     response_result (p n url Eth_blockNumber)"
  by (simp add: without_malformed_def)

lemma transient_drop_malformed [simp]: "transient (drop_malformed_result r) = transient r"
  by (cases r) (simp_all add: transient_def drop_malformed_result_def)

lemma projl_drop_malformed: "transient r \<Longrightarrow> projl (drop_malformed_result r) = projl r"
  by (cases r) (simp_all add: transient_def drop_malformed_result_def)

lemma planned_without_malformed:
  "planned_results (without_malformed p) n (Eth_getLogs f) plan =
     map (drop_malformed_result) (planned_results p n (Eth_getLogs f) plan)"
  by (induction plan arbitrary: n) (auto simp: response_without_malformed)

lemma planned_without_malformed_head:
  "planned_results (without_malformed p) n Eth_blockNumber plan =
     planned_results p n Eth_blockNumber plan"
  by (induction plan arbitrary: n) (auto simp: response_without_malformed_head)

lemma attempts_made_map [simp]:
  "attempts_made (map drop_malformed_result rs) = attempts_made rs"
  by (induction rs) auto

lemma final_result_map:
  "final_result (map drop_malformed_result rs) lastErr = drop_malformed_result (final_result rs lastErr)"
proof (induction rs arbitrary: lastErr)
  case Nil
  then show ?case by (simp add: final_result_Nil drop_malformed_result_def)
next
  case (Cons r rs)
  show ?case
  proof (cases "transient r")
    case True
    then have "transient (drop_malformed_result r)" by simp
    then have "final_result (drop_malformed_result r # map drop_malformed_result rs) lastErr =
        final_result (map drop_malformed_result rs) (Some (projl (drop_malformed_result r)))"
      by (rule final_result_transient)
    with True show ?thesis
      by (simp add: Cons.IH final_result_transient projl_drop_malformed)
  next
    case False
    then have "\<not> transient (drop_malformed_result r)" by simp
    then have "final_result (drop_malformed_result r # map drop_malformed_result rs) lastErr =
        drop_malformed_result r"
      by (rule final_result_not_transient)
    with False show ?thesis by (simp add: final_result_not_transient)
  qed
qed

lemma rpc_without_malformed:
  "rpc (without_malformed p) cfg (Eth_getLogs f) st =
     (drop_malformed_result (fst (rpc p cfg (Eth_getLogs f) st)), snd (rpc p cfg (Eth_getLogs f) st))"
  by (simp add: rpc_eq planned_without_malformed final_result_map)

lemma rpc_without_malformed_head:
  "rpc (without_malformed p) cfg Eth_blockNumber st = rpc p cfg Eth_blockNumber st"
  by (simp add: rpc_eq planned_without_malformed_head)

lemma getLatestBlockNumber_without_malformed:
  "getLatestBlockNumber (without_malformed p) cfg st = getLatestBlockNumber p cfg st"
  by (simp add: getLatestBlockNumber_def rpc_without_malformed_head)

lemma getTransferLogs_without_malformed:
  "getTransferLogs (without_malformed p) cfg a b fa ta st =
     (drop_malformed_result (fst (getTransferLogs p cfg a b fa ta st)),
      snd (getTransferLogs p cfg a b fa ta st))"
  by (simp add: getTransferLogs_def rpc_without_malformed)

lemma add_received_iterate:
  "(case iterate (drop_malformed r) of Inl e \<Rightarrow> Inl e | Inr ls \<Rightarrow> Inr (add_received ls s)) =
   (case iterate r of Inl e \<Rightarrow> Inl e | Inr ls \<Rightarrow> Inr (add_received ls s))"
  by (cases r) (simp_all add: iterate_def drop_malformed_def add_received_well_formed)

lemma delete_sent_iterate:
  "(case iterate (drop_malformed r) of Inl e \<Rightarrow> Inl e | Inr ls \<Rightarrow> Inr (delete_sent ls s)) =
   (case iterate r of Inl e \<Rightarrow> Inl e | Inr ls \<Rightarrow> Inr (delete_sent ls s))"
  by (cases r) (simp_all add: iterate_def drop_malformed_def delete_sent_well_formed)

lemma scan_chunk_without_malformed:
  "scan_chunk (without_malformed p) cfg w a b s st = scan_chunk p cfg w a b s st"
proof -
  obtain r1 st1 where g1: "getTransferLogs p cfg a b None (Some w) st = (r1, st1)" by fastforce
  obtain r2 st2 where g2: "getTransferLogs p cfg a b (Some w) None st1 = (r2, st2)" by fastforce
  show ?thesis
  proof (cases r1)
    case (Inl e)
    with g1 show ?thesis
      by (simp add: scan_chunk_def getTransferLogs_without_malformed)
  next
    case r1: (Inr v1)
    show ?thesis
    proof (cases "iterate v1")
      case (Inl e)
      with g1 r1 add_received_iterate[where r = v1 and s = s] show ?thesis
        by (auto simp: scan_chunk_def getTransferLogs_without_malformed split: sum.splits)
    next
      case i1: (Inr ls1)
      with add_received_iterate[where r = v1 and s = s] obtain ls1' where
        i1': "iterate (drop_malformed v1) = Inr ls1'" and a: "add_received ls1' s = add_received ls1 s"
        by (auto split: sum.splits)
      show ?thesis
      proof (cases r2)
        case (Inl e)
        with g1 g2 r1 i1 i1' show ?thesis
          by (simp add: scan_chunk_def getTransferLogs_without_malformed)
      next
        case r2: (Inr v2)
        with g1 g2 r1 i1 i1' a delete_sent_iterate[where r = v2 and s = "add_received ls1 s"] show ?thesis
          by (auto simp: scan_chunk_def getTransferLogs_without_malformed split: sum.splits)
      qed
    qed
  qed
qed

lemma scan_loop_without_malformed_1:
  assumes l: "scan_loop p cfg w latest f s st = Some y"
  shows "scan_loop (without_malformed p) cfg w latest f s st = Some y"
proof (rule scan_loop.raw_induct
    [where P = "\<lambda>p cfg w latest f s st y.
       scan_loop (without_malformed p) cfg w latest f s st = Some y", OF _ l])
  fix loop :: "provider \<Rightarrow> config \<Rightarrow> string \<Rightarrow> int \<Rightarrow> int \<Rightarrow> int list \<Rightarrow> state
      \<Rightarrow> ((error + int list) \<times> state) option"
    and p cfg w latest f s st y
  assume IH: "\<And>p cfg w latest f s st y. loop p cfg w latest f s st = Some y \<Longrightarrow>
     scan_loop (without_malformed p) cfg w latest f s st = Some y"
  assume body: "(if f \<le> latest
      then case scan_chunk p cfg w f (chunk_end cfg f latest) s st of
           (Inl e, st') \<Rightarrow> Some (Inl e, st')
           | (Inr s', st') \<Rightarrow> loop p cfg w latest (f + LOG_CHUNK cfg) s' st'
      else Some (Inr s, st)) = Some y"
  show "scan_loop (without_malformed p) cfg w latest f s st = Some y"
  proof (cases "f \<le> latest")
    case False
    with body show ?thesis by (subst scan_loop.simps) simp
  next
    case True
    obtain r st1 where c: "scan_chunk p cfg w f (chunk_end cfg f latest) s st = (r, st1)"
      by fastforce
    show ?thesis
    proof (cases r)
      case (Inl e)
      with body True c show ?thesis
        by (subst scan_loop.simps) (auto simp: scan_chunk_without_malformed)
    next
      case (Inr s1)
      with body True c have "loop p cfg w latest (f + LOG_CHUNK cfg) s1 st1 = Some y" by simp
      from IH[OF this] Inr True c show ?thesis
        by (subst scan_loop.simps) (simp add: scan_chunk_without_malformed)
    qed
  qed
qed

lemma scan_loop_without_malformed_2:
  assumes l: "scan_loop q cfg w latest f s st = Some y"
  shows "\<forall>p. q = without_malformed p \<longrightarrow> scan_loop p cfg w latest f s st = Some y"
proof (rule scan_loop.raw_induct
    [where P = "\<lambda>q cfg w latest f s st y.
       \<forall>p. q = without_malformed p \<longrightarrow> scan_loop p cfg w latest f s st = Some y", OF _ l])
  fix loop :: "provider \<Rightarrow> config \<Rightarrow> string \<Rightarrow> int \<Rightarrow> int \<Rightarrow> int list \<Rightarrow> state
      \<Rightarrow> ((error + int list) \<times> state) option"
    and q cfg w latest f s st y
  assume IH: "\<And>q cfg w latest f s st y. loop q cfg w latest f s st = Some y \<Longrightarrow>
     \<forall>p. q = without_malformed p \<longrightarrow> scan_loop p cfg w latest f s st = Some y"
  assume body: "(if f \<le> latest
      then case scan_chunk q cfg w f (chunk_end cfg f latest) s st of
           (Inl e, st') \<Rightarrow> Some (Inl e, st')
           | (Inr s', st') \<Rightarrow> loop q cfg w latest (f + LOG_CHUNK cfg) s' st'
      else Some (Inr s, st)) = Some y"
  show "\<forall>p. q = without_malformed p \<longrightarrow> scan_loop p cfg w latest f s st = Some y"
  proof (intro allI impI)
    fix p
    assume q: "q = without_malformed p"
    show "scan_loop p cfg w latest f s st = Some y"
    proof (cases "f \<le> latest")
      case False
      with body show ?thesis by (subst scan_loop.simps) simp
    next
      case True
      obtain r st1 where c: "scan_chunk p cfg w f (chunk_end cfg f latest) s st = (r, st1)"
        by fastforce
      then have c': "scan_chunk q cfg w f (chunk_end cfg f latest) s st = (r, st1)"
        by (simp add: q scan_chunk_without_malformed)
      show ?thesis
      proof (cases r)
        case (Inl e)
        with body True c c' show ?thesis
          by (subst scan_loop.simps) auto
      next
        case (Inr s1)
        with body True c' have "loop q cfg w latest (f + LOG_CHUNK cfg) s1 st1 = Some y" by simp
        from IH[OF this] q have "scan_loop p cfg w latest (f + LOG_CHUNK cfg) s1 st1 = Some y"
          by simp
        with Inr True c show ?thesis
          by (subst scan_loop.simps) simp
      qed
    qed
  qed
qed

lemma scan_loop_without_malformed:
  "scan_loop (without_malformed p) cfg w latest f s st = scan_loop p cfg w latest f s st"
proof (cases "scan_loop p cfg w latest f s st")
  case (Some y)
  then show ?thesis by (simp add: scan_loop_without_malformed_1)
next
  case None
  show ?thesis
  proof (cases "scan_loop (without_malformed p) cfg w latest f s st")
    case None
    with \<open>scan_loop p cfg w latest f s st = None\<close> show ?thesis by simp
  next
    case (Some y)
    from scan_loop_without_malformed_2[OF this] have "scan_loop p cfg w latest f s st = Some y"
      by simp
    with None show ?thesis by simp
  qed
qed

lemma refresh_without_malformed:
  "updateOwnedTokensForWallet (without_malformed p) cfg wallet st =
     updateOwnedTokensForWallet p cfg wallet st"
  unfolding updateOwnedTokensForWallet_def getLatestBlockNumber_without_malformed
    scan_loop_without_malformed
  by (rule refl)

lemma tokenIdFromLog_Some:
  "tokenIdFromLog lg = Some t \<longleftrightarrow> \<not> malformed lg \<and> carried_id lg = t"
  by (auto simp: tokenIdFromLog_def malformed_def carried_id_def Let_def)

lemma token_ids_well_formed: "token_ids lgs = set (well_formed_ids lgs)"
  by (auto simp: token_ids_def well_formed_ids_def tokenIdFromLog_Some)

lemma scan_chunk_lists:
  assumes "getTransferLogs p cfg a b None (Some w) st = (Inr (RLogs logsTo), st1)"
    and "getTransferLogs p cfg a b (Some w) None st1 = (Inr (RLogs logsFrom), st2)"
  shows "scan_chunk p cfg w a b s st = (Inr (delete_sent logsFrom (add_received logsTo s)), st2)"
  using assms by (simp add: scan_chunk_def iterate_def)

lemma well_formed_applied:
  assumes "getTransferLogs p cfg a b None (Some w) st = (Inr (RLogs logsTo), st1)"
    and "getTransferLogs p cfg a b (Some w) None st1 = (Inr (RLogs logsFrom), st2)"
  shows "\<exists>s'. scan_chunk p cfg w a b s st = (Inr s', st2)
           \<and> set s' = (set s \<union> set (well_formed_ids logsTo)) - set (well_formed_ids logsFrom)"
  using scan_chunk_lists[OF assms, of s]
  by (simp add: set_delete_sent set_add_received token_ids_well_formed)

text \<open>
  Claim C8. When the two log queries of a range return lists of records, the scan of the
  range does not throw, and the set it yields is the set before the range, plus the token
  ids carried by the well-formed records of the transfers to the wallet, minus the token ids
  carried by the well-formed records of the transfers from the wallet: a record whose token
  topic is missing or does not parse is skipped, and every well-formed one is applied. A
  whole refresh against a provider is the refresh against the same provider with the
  malformed records removed from every answer to a log query.
\<close>

theorem malformed_records_are_skipped:
  "(\<forall>logsTo st1 logsFrom st2.
       getTransferLogs p cfg a b None (Some w) st = (Inr (RLogs logsTo), st1) \<and>
       getTransferLogs p cfg a b (Some w) None st1 = (Inr (RLogs logsFrom), st2) \<longrightarrow>
       (\<exists>s'. scan_chunk p cfg w a b s st = (Inr s', st2)
          \<and> set s' = (set s \<union> set (well_formed_ids logsTo)) - set (well_formed_ids logsFrom)))
   \<and> updateOwnedTokensForWallet p cfg wallet st0 =
       updateOwnedTokensForWallet (without_malformed p) cfg wallet st0"
proof (rule conjI)
  show "\<forall>logsTo st1 logsFrom st2.
       getTransferLogs p cfg a b None (Some w) st = (Inr (RLogs logsTo), st1) \<and>
       getTransferLogs p cfg a b (Some w) None st1 = (Inr (RLogs logsFrom), st2) \<longrightarrow>
       (\<exists>s'. scan_chunk p cfg w a b s st = (Inr s', st2)
          \<and> set s' = (set s \<union> set (well_formed_ids logsTo)) - set (well_formed_ids logsFrom))"
    using well_formed_applied by blast
next
  show "updateOwnedTokensForWallet p cfg wallet st0 =
       updateOwnedTokensForWallet (without_malformed p) cfg wallet st0"
    by (simp add: refresh_without_malformed)
qed

lemma bad_topic: "StringToBigInt ''0xzz'' = None"
  by code_simp

lemma chain_getTransferLogs:
  assumes "BETTA_CONTRACT cfg \<noteq> []" "0 \<le> a" "0 \<le> b"
  shows "fst (getTransferLogs (chain_provider head history) cfg a b fa ta st) =
     Inr (RLogs (map snd (filter (\<lambda>(bn, lg). a \<le> bn \<and> bn \<le> b
            \<and> topics_match [Some TRANSFER_SIG, topic_of fa, topic_of ta, None] (topics lg)) history)))"
  using assms rpc_always_succeeds[of "chain_provider head history" _ _ cfg st, OF chain_getLogs[OF assms(2,3)]]
  by (simp add: getTransferLogs_def)

lemma dirty_malformed:
  "malformed no_token_topic" "malformed empty_token_topic" "malformed bad_token_topic"
  "malformed bad_outgoing_topic"
  "\<not> malformed (transfer a b 7)" "\<not> malformed (transfer a b 5)"
  using token_7[of a b] token_5[of a b]
  by (simp_all add: malformed_skipped no_token_topic_def empty_token_topic_def bad_token_topic_def
      bad_outgoing_topic_def bad_topic tokenIdFromLog_def)

lemma dirty_carried: "carried_id (transfer a b 7) = 7" "carried_id (transfer a b 5) = 5"
  using token_7[of a b] token_5[of a b] by (simp_all add: tokenIdFromLog_Some)

lemma dirty_incoming:
  "incoming alice no_token_topic" "incoming alice empty_token_topic"
  "incoming alice bad_token_topic" "\<not> incoming alice bad_outgoing_topic"
  by (simp_all add: incoming_def no_token_topic_def empty_token_topic_def bad_token_topic_def
      bad_outgoing_topic_def alice_topic bob_topic)

lemma dirty_outgoing:
  "\<not> outgoing alice no_token_topic" "\<not> outgoing alice empty_token_topic"
  "\<not> outgoing alice bad_token_topic" "outgoing alice bad_outgoing_topic"
  by (simp_all add: outgoing_def no_token_topic_def empty_token_topic_def bad_token_topic_def
      bad_outgoing_topic_def alice_topic bob_topic)

lemma dirty_logs_to:
  "fst (getTransferLogs (chain_provider 2 dirty_history) two_endpoints 1 2 None (Some alice) st) =
     Inr (RLogs [transfer bob alice 7, no_token_topic, empty_token_topic, bad_token_topic,
                 transfer bob alice 5])"
  using chain_getTransferLogs[of two_endpoints 1 2 2 dirty_history None "Some alice" st]
    dirty_incoming alice_events
  by (simp add: two_endpoints_fields topic_of_def alice_nonempty incoming_def dirty_history_def)

lemma dirty_logs_from:
  "fst (getTransferLogs (chain_provider 2 dirty_history) two_endpoints 1 2 (Some alice) None st) =
     Inr (RLogs [transfer alice bob 7, bad_outgoing_topic])"
  using chain_getTransferLogs[of two_endpoints 1 2 2 dirty_history "Some alice" None st]
    dirty_outgoing alice_events
  by (simp add: two_endpoints_fields topic_of_def alice_nonempty outgoing_def dirty_history_def)

lemma dirty_refresh:
  "\<exists>st'. updateOwnedTokensForWallet (chain_provider 2 dirty_history) two_endpoints alice initial_state =
      Some (Inr \<lparr>lastScannedBlock = Some 2, tokenIds = [5]\<rparr>, st')"
proof -
  have n: "tokenIdFromLog no_token_topic = None" "tokenIdFromLog empty_token_topic = None"
      "tokenIdFromLog bad_token_topic = None" "tokenIdFromLog bad_outgoing_topic = None"
    using dirty_malformed by (simp_all add: malformed_skipped)
  have e: "cached_entry initial_state alice = \<lparr>lastScannedBlock = None, tokenIds = []\<rparr>"
    by (simp add: cached_entry_def initial_state_def)
  have s: "foldl (chunk_apply alice dirty_history) [] (chunk_ranges two_endpoints 1 2) = [5]"
    by (simp add: ranges_large chunk_apply_def dirty_history_def token_7 token_5 n
        dirty_incoming dirty_outgoing set_add_def set_delete_def)
  have so: "sortTokenIds [5] = [5]" by (simp add: sortTokenIds_def)
  from refresh_chain[of two_endpoints alice 2 dirty_history initial_state]
  show ?thesis
    by (simp add: two_endpoints_fields alice_norm alice_hex e start_block_def new_Set_def s so)
      blast
qed

theorem malformed_records_are_skipped_witness:
  "malformed no_token_topic \<and> malformed empty_token_topic \<and> malformed bad_token_topic
   \<and> malformed bad_outgoing_topic
   \<and> (\<exists>s' st'. scan_chunk (chain_provider 2 dirty_history) two_endpoints alice 1 2 [] initial_state =
          (Inr s', st') \<and> set s' = {5})
   \<and> fst (the (updateOwnedTokensForWallet (chain_provider 2 dirty_history) two_endpoints alice
         initial_state)) = Inr \<lparr>lastScannedBlock = Some 2, tokenIds = [5]\<rparr>
   \<and> fst (the (updateOwnedTokensForWallet (without_malformed (chain_provider 2 dirty_history))
         two_endpoints alice initial_state)) = Inr \<lparr>lastScannedBlock = Some 2, tokenIds = [5]\<rparr>"
proof -
  let ?p = "chain_provider 2 dirty_history"
  let ?to = "[transfer bob alice 7, no_token_topic, empty_token_topic, bad_token_topic,
              transfer bob alice 5]"
  let ?from = "[transfer alice bob 7, bad_outgoing_topic]"
  define st1 where "st1 = snd (getTransferLogs ?p two_endpoints 1 2 None (Some alice) initial_state)"
  define st2 where "st2 = snd (getTransferLogs ?p two_endpoints 1 2 (Some alice) None st1)"
  have g1: "getTransferLogs ?p two_endpoints 1 2 None (Some alice) initial_state = (Inr (RLogs ?to), st1)"
    using dirty_logs_to[of initial_state] by (simp add: st1_def prod_eq_iff)
  have g2: "getTransferLogs ?p two_endpoints 1 2 (Some alice) None st1 = (Inr (RLogs ?from), st2)"
    using dirty_logs_from[of st1] by (simp add: st2_def prod_eq_iff)
  note inst = malformed_records_are_skipped[of ?p two_endpoints 1 2 alice initial_state "[]" alice
      initial_state]
  from inst g1 g2 obtain s' where
    c: "scan_chunk ?p two_endpoints alice 1 2 [] initial_state = (Inr s', st2)"
    and m: "set s' = (set [] \<union> set (well_formed_ids ?to)) - set (well_formed_ids ?from)"
    by blast
  have "set s' = {5}"
    unfolding m by (simp add: well_formed_ids_def dirty_malformed dirty_carried)
  with c have a: "\<exists>s' st'. scan_chunk ?p two_endpoints alice 1 2 [] initial_state = (Inr s', st')
      \<and> set s' = {5}"
    by blast
  from dirty_refresh
  have r: "fst (the (updateOwnedTokensForWallet ?p two_endpoints alice initial_state)) =
      Inr \<lparr>lastScannedBlock = Some 2, tokenIds = [5]\<rparr>"
    by auto
  with inst have r': "fst (the (updateOwnedTokensForWallet (without_malformed ?p) two_endpoints alice
      initial_state)) = Inr \<lparr>lastScannedBlock = Some 2, tokenIds = [5]\<rparr>"
    by simp
  from dirty_malformed(1-4) a r r' show ?thesis by blast
qed

section \<open>The cached fast path of \<open>GET /owned\<close>\<close>

lemma fast_path:
  assumes "isHexAddress (toLowerCase (trim (query_wallet q)))" "BETTA_CONTRACT cfg \<noteq> []"
    and "ownedCache st (toLowerCase (trim (query_wallet q))) = Some c" "tokenIds c \<noteq> []"
  shows "get_owned p cfg q st =
     Some (Owned (toLowerCase (trim (query_wallet q))) (tokenIds c) (lastScannedBlock c) True, st)"
  using assms by (simp add: get_owned_def Let_def)

lemma slow_path:
  assumes "isHexAddress (toLowerCase (trim (query_wallet q)))" "BETTA_CONTRACT cfg \<noteq> []"
    and "\<forall>c. ownedCache st (toLowerCase (trim (query_wallet q))) = Some c \<longrightarrow> tokenIds c = []"
  shows "get_owned p cfg q st = refresh_response p cfg (toLowerCase (trim (query_wallet q))) st"
  using assms by (auto simp: get_owned_def Let_def split: option.splits)

lemma slow_path_refresh:
  assumes "isHexAddress (toLowerCase (trim (query_wallet q)))" "BETTA_CONTRACT cfg \<noteq> []"
    and "\<forall>c. ownedCache st (toLowerCase (trim (query_wallet q))) = Some c \<longrightarrow> tokenIds c = []"
  shows "get_owned p cfg q st =
     (case updateOwnedTokensForWallet p cfg (toLowerCase (trim (query_wallet q))) st of
        None \<Rightarrow> None
      | Some (Inl e, st') \<Rightarrow> Some (Failure 500 ''INTERNAL_ERROR'' (error_text e), st')
      | Some (Inr entry, st') \<Rightarrow>
          Some (Owned (toLowerCase (trim (query_wallet q))) (tokenIds entry) (lastScannedBlock entry) False,
                st'))"
  using slow_path[OF assms, of p] by (simp add: refresh_response_def)

lemma slow_path_stores:
  assumes v: "isHexAddress (toLowerCase (trim (query_wallet q)))" "BETTA_CONTRACT cfg \<noteq> []"
    and e: "\<forall>c. ownedCache st (toLowerCase (trim (query_wallet q))) = Some c \<longrightarrow> tokenIds c = []"
    and r: "get_owned p cfg q st = Some (Owned a ts l False, st')"
  shows "ownedCache st' (toLowerCase (trim (query_wallet q))) = Some \<lparr>lastScannedBlock = l, tokenIds = ts\<rparr>
     \<and> wallet_owned_json st' = ownedCache st'
     \<and> (\<exists>latest st1. getLatestBlockNumber p cfg st = (Inr latest, st1) \<and> l = Some latest)"
proof -
  let ?w = "toLowerCase (trim (query_wallet q))"
  from slow_path_refresh[OF v e, of p] r obtain cp where
    u: "updateOwnedTokensForWallet p cfg ?w st = Some (Inr cp, st')"
    and ts: "ts = tokenIds cp" and l: "l = lastScannedBlock cp"
    by (auto split: option.splits sum.splits prod.splits)
  from ts l have cp: "cp = \<lparr>lastScannedBlock = l, tokenIds = ts\<rparr>" by simp
  from refresh_succeeds[OF u] show ?thesis
    by (auto simp: cp)
qed

lemma cached_answer_iff:
  "(\<exists>a ts l st'. get_owned p cfg q st = Some (Owned a ts l True, st')) \<longleftrightarrow>
     isHexAddress (toLowerCase (trim (query_wallet q))) \<and> BETTA_CONTRACT cfg \<noteq> []
     \<and> (\<exists>c. ownedCache st (toLowerCase (trim (query_wallet q))) = Some c \<and> tokenIds c \<noteq> [])"
  by (auto simp: get_owned_def Let_def refresh_response_def
      split: option.splits sum.splits prod.splits if_splits)

text \<open>
  Claim C10, as amended. \<open>GET /owned\<close> answers \<open>cached: true\<close> exactly when the wallet
  parameter is a well-formed address, a contract is configured, and the cache holds an
  entry for the wallet whose \<open>tokenIds\<close> is not empty; the answer is then the stored entry
  and the state is untouched, so nothing is fetched and \<open>lastScannedBlock\<close> is not advanced.
  With a well-formed address and a configured contract but no entry, or an entry with empty
  \<open>tokenIds\<close>, the handler calls \<open>updateOwnedTokensForWallet\<close>: it answers with the result
  of that refresh and \<open>cached: false\<close>, or with 500 when the refresh throws; after such an
  answer the returned entry is the one stored in the cache and in the file, and its
  \<open>lastScannedBlock\<close> is the chain head the refresh observed. A malformed wallet is answered
  with 400 and a missing contract with 500, whatever the cache holds.
\<close>

theorem owned_fast_path:
  "((\<exists>a ts l st'. get_owned p cfg q st = Some (Owned a ts l True, st')) \<longleftrightarrow>
      isHexAddress (toLowerCase (trim (query_wallet q))) \<and> BETTA_CONTRACT cfg \<noteq> []
      \<and> (\<exists>c. ownedCache st (toLowerCase (trim (query_wallet q))) = Some c \<and> tokenIds c \<noteq> []))
   \<and> (\<forall>c. isHexAddress (toLowerCase (trim (query_wallet q))) \<and> BETTA_CONTRACT cfg \<noteq> []
         \<and> ownedCache st (toLowerCase (trim (query_wallet q))) = Some c \<and> tokenIds c \<noteq> [] \<longrightarrow>
        get_owned p cfg q st =
          Some (Owned (toLowerCase (trim (query_wallet q))) (tokenIds c) (lastScannedBlock c) True, st))
   \<and> (isHexAddress (toLowerCase (trim (query_wallet q))) \<and> BETTA_CONTRACT cfg \<noteq> []
         \<and> (\<forall>c. ownedCache st (toLowerCase (trim (query_wallet q))) = Some c \<longrightarrow> tokenIds c = []) \<longrightarrow>
        get_owned p cfg q st =
          (case updateOwnedTokensForWallet p cfg (toLowerCase (trim (query_wallet q))) st of
             None \<Rightarrow> None
           | Some (Inl e, st') \<Rightarrow> Some (Failure 500 ''INTERNAL_ERROR'' (error_text e), st')
           | Some (Inr entry, st') \<Rightarrow>
               Some (Owned (toLowerCase (trim (query_wallet q))) (tokenIds entry)
                       (lastScannedBlock entry) False, st'))
      \<and> (\<forall>a ts l st'. get_owned p cfg q st = Some (Owned a ts l False, st') \<longrightarrow>
            ownedCache st' (toLowerCase (trim (query_wallet q))) =
              Some \<lparr>lastScannedBlock = l, tokenIds = ts\<rparr>
          \<and> wallet_owned_json st' = ownedCache st'
          \<and> (\<exists>latest st1. getLatestBlockNumber p cfg st = (Inr latest, st1) \<and> l = Some latest)))
   \<and> (\<not> isHexAddress (toLowerCase (trim (query_wallet q))) \<longrightarrow>
        get_owned p cfg q st = Some (Failure 400 ''INVALID_WALLET'' [], st))
   \<and> (isHexAddress (toLowerCase (trim (query_wallet q))) \<and> BETTA_CONTRACT cfg = [] \<longrightarrow>
        get_owned p cfg q st =
          Some (Failure 500 ''MISSING_CONTRACT_ENV'' ''BETTA_CONTRACT_ADDRESS not set'', st))"
proof (intro conjI)
  let ?w = "toLowerCase (trim (query_wallet q))"
  show "(\<exists>a ts l st'. get_owned p cfg q st = Some (Owned a ts l True, st')) \<longleftrightarrow>
      isHexAddress ?w \<and> BETTA_CONTRACT cfg \<noteq> []
      \<and> (\<exists>c. ownedCache st ?w = Some c \<and> tokenIds c \<noteq> [])"
    by (rule cached_answer_iff)
  show "\<forall>c. isHexAddress ?w \<and> BETTA_CONTRACT cfg \<noteq> []
         \<and> ownedCache st ?w = Some c \<and> tokenIds c \<noteq> [] \<longrightarrow>
        get_owned p cfg q st = Some (Owned ?w (tokenIds c) (lastScannedBlock c) True, st)"
    using fast_path[of q cfg st _ p] by blast
  show "isHexAddress ?w \<and> BETTA_CONTRACT cfg \<noteq> []
         \<and> (\<forall>c. ownedCache st ?w = Some c \<longrightarrow> tokenIds c = []) \<longrightarrow>
        get_owned p cfg q st =
          (case updateOwnedTokensForWallet p cfg ?w st of
             None \<Rightarrow> None
           | Some (Inl e, st') \<Rightarrow> Some (Failure 500 ''INTERNAL_ERROR'' (error_text e), st')
           | Some (Inr entry, st') \<Rightarrow>
               Some (Owned ?w (tokenIds entry) (lastScannedBlock entry) False, st'))
      \<and> (\<forall>a ts l st'. get_owned p cfg q st = Some (Owned a ts l False, st') \<longrightarrow>
            ownedCache st' ?w = Some \<lparr>lastScannedBlock = l, tokenIds = ts\<rparr>
          \<and> wallet_owned_json st' = ownedCache st'
          \<and> (\<exists>latest st1. getLatestBlockNumber p cfg st = (Inr latest, st1) \<and> l = Some latest))"
  proof (rule impI, elim conjE, rule conjI)
    assume v: "isHexAddress ?w" "BETTA_CONTRACT cfg \<noteq> []"
      and e: "\<forall>c. ownedCache st ?w = Some c \<longrightarrow> tokenIds c = []"
    show "get_owned p cfg q st =
          (case updateOwnedTokensForWallet p cfg ?w st of
             None \<Rightarrow> None
           | Some (Inl e, st') \<Rightarrow> Some (Failure 500 ''INTERNAL_ERROR'' (error_text e), st')
           | Some (Inr entry, st') \<Rightarrow>
               Some (Owned ?w (tokenIds entry) (lastScannedBlock entry) False, st'))"
      using v e by (rule slow_path_refresh)
    show "\<forall>a ts l st'. get_owned p cfg q st = Some (Owned a ts l False, st') \<longrightarrow>
            ownedCache st' ?w = Some \<lparr>lastScannedBlock = l, tokenIds = ts\<rparr>
          \<and> wallet_owned_json st' = ownedCache st'
          \<and> (\<exists>latest st1. getLatestBlockNumber p cfg st = (Inr latest, st1) \<and> l = Some latest)"
      using slow_path_stores[OF v e] by blast
  qed
  show "\<not> isHexAddress ?w \<longrightarrow> get_owned p cfg q st = Some (Failure 400 ''INVALID_WALLET'' [], st)"
    by (simp add: get_owned_def Let_def)
  show "isHexAddress ?w \<and> BETTA_CONTRACT cfg = [] \<longrightarrow>
        get_owned p cfg q st =
          Some (Failure 500 ''MISSING_CONTRACT_ENV'' ''BETTA_CONTRACT_ADDRESS not set'', st)"
    by (simp add: get_owned_def Let_def)
qed


text \<open>
  Claim C10 fails as stated. The cache holds an entry for \<open>alice\<close> with the token ids 7 and
  5, but the process was started without a contract address: \<open>GET /owned\<close> answers 500
  \<open>MISSING_CONTRACT_ENV\<close> and does not return the cached entry.
\<close>

theorem missing_contract_skips_fast_path:
  "ownedCache scanned_state alice = Some \<lparr>lastScannedBlock = Some 3, tokenIds = [7, 5]\<rparr>
   \<and> get_owned (chain_provider 5 quiet_history) no_contract (query_for alice) scanned_state =
       Some (Failure 500 ''MISSING_CONTRACT_ENV'' ''BETTA_CONTRACT_ADDRESS not set'', scanned_state)"
  by (simp add: get_owned_def Let_def alice_norm alice_hex no_contract_def scanned_state_def)

lemma bob_refresh_first:
  "\<exists>st1. updateOwnedTokensForWallet (chain_provider 5 quiet_history) small_chunks bob empty_handed_state =
       Some (Inr \<lparr>lastScannedBlock = Some 5, tokenIds = []\<rparr>, st1)
     \<and> ownedCache st1 = (ownedCache empty_handed_state)(bob \<mapsto> \<lparr>lastScannedBlock = Some 5, tokenIds = []\<rparr>)"
proof -
  have e: "cached_entry empty_handed_state bob = \<lparr>lastScannedBlock = Some 3, tokenIds = []\<rparr>"
    by (simp add: cached_entry_def empty_handed_state_def)
  have s: "foldl (chunk_apply bob quiet_history) [] (chunk_ranges small_chunks 4 5) = []"
    by (simp add: ranges_small chunk_apply_def quiet_history_def token_9 set_delete_def)
  from refresh_chain[of small_chunks bob 5 quiet_history empty_handed_state]
  show ?thesis
    by (simp add: small_chunks_fields bob_norm bob_hex e start_block_def new_Set_def s)
qed

lemma bob_refresh_second:
  assumes "ownedCache st1 bob = Some \<lparr>lastScannedBlock = Some 5, tokenIds = []\<rparr>"
  shows "\<exists>st2. updateOwnedTokensForWallet (chain_provider 6 quiet_history) small_chunks bob st1 =
       Some (Inr \<lparr>lastScannedBlock = Some 6, tokenIds = []\<rparr>, st2)"
proof -
  have e: "cached_entry st1 bob = \<lparr>lastScannedBlock = Some 5, tokenIds = []\<rparr>"
    using assms by (simp add: cached_entry_def)
  have s: "foldl (chunk_apply bob quiet_history) [] (chunk_ranges small_chunks 6 6) = []"
    by (simp add: ranges_small chunk_apply_def quiet_history_def)
  from refresh_chain[of small_chunks bob 6 quiet_history st1]
  show ?thesis
    by (simp add: small_chunks_fields bob_norm bob_hex e start_block_def new_Set_def s) blast
qed

theorem owned_fast_path_witness:
  "get_owned (chain_provider 5 quiet_history) small_chunks (query_for alice) scanned_state =
     Some (Owned alice [7, 5] (Some 3) True, scanned_state)
   \<and> ownedCache empty_handed_state bob = Some \<lparr>lastScannedBlock = Some 3, tokenIds = []\<rparr>
   \<and> (\<exists>st1 st2.
        get_owned (chain_provider 5 quiet_history) small_chunks (query_for bob) empty_handed_state =
          Some (Owned bob [] (Some 5) False, st1)
      \<and> ownedCache st1 bob = Some \<lparr>lastScannedBlock = Some 5, tokenIds = []\<rparr>
      \<and> get_owned (chain_provider 6 quiet_history) small_chunks (query_for bob) st1 =
          Some (Owned bob [] (Some 6) False, st2))"
proof (intro conjI)
  let ?p5 = "chain_provider 5 quiet_history" and ?p6 = "chain_provider 6 quiet_history"
  have va: "isHexAddress (toLowerCase (trim (query_wallet (query_for alice)))) \<and>
      BETTA_CONTRACT small_chunks \<noteq> []"
    by (simp add: alice_norm alice_hex small_chunks_fields)
  have ca: "ownedCache scanned_state (toLowerCase (trim (query_wallet (query_for alice)))) =
      Some \<lparr>lastScannedBlock = Some 3, tokenIds = [7, 5]\<rparr>"
    by (simp add: alice_norm scanned_state_def)
  show "get_owned ?p5 small_chunks (query_for alice) scanned_state =
     Some (Owned alice [7, 5] (Some 3) True, scanned_state)"
    using owned_fast_path[of ?p5 small_chunks "query_for alice" scanned_state] va ca
    by (simp add: alice_norm)
  show cb: "ownedCache empty_handed_state bob = Some \<lparr>lastScannedBlock = Some 3, tokenIds = []\<rparr>"
    by (simp add: empty_handed_state_def)
  have vb: "isHexAddress (toLowerCase (trim (query_wallet (query_for bob))))"
      "BETTA_CONTRACT small_chunks \<noteq> []"
    by (simp_all add: bob_norm bob_hex small_chunks_fields)
  from bob_refresh_first obtain st1 where
    u1: "updateOwnedTokensForWallet ?p5 small_chunks bob empty_handed_state =
       Some (Inr \<lparr>lastScannedBlock = Some 5, tokenIds = []\<rparr>, st1)"
    by blast
  have g1: "get_owned ?p5 small_chunks (query_for bob) empty_handed_state =
      Some (Owned bob [] (Some 5) False, st1)"
    using owned_fast_path[of ?p5 small_chunks "query_for bob" empty_handed_state] vb cb u1
    by (simp add: bob_norm)
  have c1: "ownedCache st1 bob = Some \<lparr>lastScannedBlock = Some 5, tokenIds = []\<rparr>"
    using owned_fast_path[of ?p5 small_chunks "query_for bob" empty_handed_state] vb cb g1
    by (simp add: bob_norm)
  from bob_refresh_second[OF c1] obtain st2 where
    u2: "updateOwnedTokensForWallet ?p6 small_chunks bob st1 =
       Some (Inr \<lparr>lastScannedBlock = Some 6, tokenIds = []\<rparr>, st2)"
    by blast
  have g2: "get_owned ?p6 small_chunks (query_for bob) st1 = Some (Owned bob [] (Some 6) False, st2)"
    using owned_fast_path[of ?p6 small_chunks "query_for bob" st1] vb c1 u2
    by (simp add: bob_norm)
  from g1 c1 g2 show "\<exists>st1 st2.
        get_owned ?p5 small_chunks (query_for bob) empty_handed_state =
          Some (Owned bob [] (Some 5) False, st1)
      \<and> ownedCache st1 bob = Some \<lparr>lastScannedBlock = Some 5, tokenIds = []\<rparr>
      \<and> get_owned ?p6 small_chunks (query_for bob) st1 = Some (Owned bob [] (Some 6) False, st2)"
    by blast
qed

end
